theory Spec2Isabelle
  imports Complex_Main "HOL-Library.Word" "HOL-Library.Sublist" "HOL-Library.AList"
begin

unbundle bit_operations_syntax

section \<open>Conventions of the embedding\<close>

text \<open>
  The development embeds the content-processing pipeline of the repository:
  \<^verbatim>\<open>backend/services/ContentProcessor.js\<close> (class ContentProcessor),
  the VectorService (\<^verbatim>\<open>generateEmbedding\<close>, \<^verbatim>\<open>simpleHash\<close>,
  \<^verbatim>\<open>storeContentVector\<close>) and the RedisService wrappers they call.

  \<^item> A JavaScript string is a \<^typ>\<open>string\<close>: one \<^typ>\<open>char\<close> per UTF-16 code unit, for
    the code units U+0000 to U+00FF (Latin-1). \<^verbatim>\<open>text.length\<close> is \<^const>\<open>length\<close>.
  \<^item> A JavaScript number that holds a count or a clock reading is a \<^typ>\<open>nat\<close> or an
    \<^typ>\<open>int\<close>. A number that holds a score or an average is the \<^typ>\<open>real\<close> value of an
    IEEE 754 double, and each arithmetic operation on it rounds to the nearest double
    (section on double arithmetic below). Only the components of the embedding are computed
    in exact real arithmetic: ECMAScript does not fix the result of \<^verbatim>\<open>Math.sin\<close>.
  \<^item> An exception is a value: a function that can throw returns a sum, a wrapper that
    swallows the exception returns what its \<^verbatim>\<open>catch\<close> block returns.
  \<^item> A mutable object (the processing stats, the Redis key space) is a record that is passed
    in and returned.
  \<^item> The Redis server is outside the repository. Its data are modelled as the commands used
    here define them (a JSON document per key, sets, appended stream entries and time series
    points); whether a call of the client rejects is decided by the environment of a step.
  \<^item> A field of a stream message is a string or is missing (\<^verbatim>\<open>undefined\<close>):
    \<^verbatim>\<open>submitContent\<close> writes every field, the stream route of the server appends any
    fields it is given. A missing \<^verbatim>\<open>contentId\<close> is the string \<^verbatim>\<open>undefined\<close> that the
    template literal of the key makes of it. The logging calls and the socket's
    \<^verbatim>\<open>emit\<close> are taken to return. The message of a TypeError is worded as V8 words it.
\<close>

section \<open>String primitives of the JavaScript runtime\<close>

text \<open>\<^verbatim>\<open>String.prototype.toLowerCase\<close> on Latin-1: A-Z and the accented capitals
  U+00C0 to U+00DE (without the multiplication sign U+00D7) move up by 32.\<close>

definition lower_char :: "char \<Rightarrow> char" where
  "lower_char c =
     (let n = (of_char c :: nat) in
      if (65 \<le> n \<and> n \<le> 90) \<or> (192 \<le> n \<and> n \<le> 222 \<and> n \<noteq> 215)
      then char_of (n + 32) else c)"

definition toLowerCase :: "string \<Rightarrow> string" where
  "toLowerCase s = map lower_char s"

text \<open>\<^verbatim>\<open>String.prototype.includes\<close>: the argument occurs as a contiguous substring.\<close>

fun str_includes :: "string \<Rightarrow> string \<Rightarrow> bool" where
  "str_includes [] w = (w = [])"
| "str_includes (c # cs) w = (prefix w (c # cs) \<or> str_includes cs w)"

text \<open>The character classes of the regular expressions: \<^verbatim>\<open>\s\<close> on Latin-1 (tab, line
  feed, vertical tab, form feed, carriage return, space, no-break space),
  \<^verbatim>\<open>[0-9]\<close>, \<^verbatim>\<open>[a-z0-9]\<close> and \<^verbatim>\<open>[a-zA-Z0-9]\<close>.\<close>

definition is_space :: "char \<Rightarrow> bool" where
  "is_space c = ((of_char c :: nat) \<in> {9, 10, 11, 12, 13, 32, 160})"

definition is_digit :: "char \<Rightarrow> bool" where
  "is_digit c = (let n = (of_char c :: nat) in 48 \<le> n \<and> n \<le> 57)"

definition is_lower_or_digit :: "char \<Rightarrow> bool" where
  "is_lower_or_digit c =
     (let n = (of_char c :: nat) in (97 \<le> n \<and> n \<le> 122) \<or> (48 \<le> n \<and> n \<le> 57))"

definition is_alnum :: "char \<Rightarrow> bool" where
  "is_alnum c =
     (let n = (of_char c :: nat) in
      (97 \<le> n \<and> n \<le> 122) \<or> (65 \<le> n \<and> n \<le> 90) \<or> (48 \<le> n \<and> n \<le> 57))"

text \<open>\<^verbatim>\<open>text.split(' ')\<close>: the fields between single separator characters; the
  accumulator holds the current field, reversed.\<close>

fun split_char :: "char \<Rightarrow> string \<Rightarrow> string \<Rightarrow> string list" where
  "split_char d acc [] = [rev acc]"
| "split_char d acc (c # cs) =
     (if c = d then rev acc # split_char d [] cs else split_char d (c # acc) cs)"

text \<open>\<^verbatim>\<open>s.split(/\s+/)\<close>: the fields between maximal runs of white space.\<close>

function split_ws :: "string \<Rightarrow> string \<Rightarrow> string list" where
  "split_ws acc [] = [rev acc]"
| "split_ws acc (c # cs) =
     (if is_space c then rev acc # split_ws [] (dropWhile is_space cs)
      else split_ws (c # acc) cs)"
  by pat_completeness auto
termination
  by (relation "measure (\<lambda>(acc, s). length s)")
     (auto simp: less_Suc_eq_le length_dropWhile_le)

section \<open>IEEE 754 double arithmetic\<close>

text \<open>
  A finite double is modelled by the real number it stands for. An arithmetic operation
  computes the exact result and rounds it to the nearest double, ties to the even
  significand (53 bits). Overflow to infinity and the subnormal range are not modelled: the
  scores, confidences and averages of the program stay far inside the normal range.
\<close>

text \<open>The position of the leading bit of a positive integer.\<close>

function ilog2 :: "int \<Rightarrow> nat" where
  "ilog2 n = (if n \<le> 1 then 0 else Suc (ilog2 (n div 2)))"
  by pat_completeness auto
termination
  by (relation "measure nat") auto

definition pow2 :: "int \<Rightarrow> real" where
  "pow2 e = (if 0 \<le> e then 2 ^ nat e else 1 / 2 ^ nat (- e))"

text \<open>For \<open>x > 0\<close>, the exponent \<open>e\<close> with \<open>2^e \<le> x < 2^(e+1)\<close>.\<close>

definition binary_exponent :: "real \<Rightarrow> int" where
  "binary_exponent x =
     (if 1 \<le> x then int (ilog2 \<lfloor>x\<rfloor>) else - int (ilog2 (\<lceil>1 / x\<rceil> - 1)) - 1)"

definition round_half_even :: "real \<Rightarrow> int" where
  "round_half_even x =
     (let f = \<lfloor>x\<rfloor>; r = x - of_int f
      in if r < 1 / 2 then f else if r > 1 / 2 then f + 1 else if even f then f else f + 1)"

text \<open>The double nearest to a real number. A decimal literal of the source, such as
  \<^verbatim>\<open>0.3\<close>, denotes \<open>double (3 / 10)\<close>.\<close>

definition double :: "real \<Rightarrow> real" where
  "double x =
     (if x = 0 then 0
      else (let e = binary_exponent \<bar>x\<bar> - 52
            in of_int (round_half_even (x / pow2 e)) * pow2 e))"

definition fadd :: "real \<Rightarrow> real \<Rightarrow> real" where
  "fadd x y = double (x + y)"

definition fmul :: "real \<Rightarrow> real \<Rightarrow> real" where
  "fmul x y = double (x * y)"

definition fdiv :: "real \<Rightarrow> real \<Rightarrow> real" where
  "fdiv x y = double (x / y)"

section \<open>ContentProcessor.extractKeywords\<close>

text \<open>The cleaned and filtered word list (\<^verbatim>\<open>words\<close> in the source).\<close>

definition keyword_tokens :: "string \<Rightarrow> string list" where
  "keyword_tokens text =
     filter (\<lambda>word. length word > 3)
       (split_ws [] (map (\<lambda>c. if is_alnum c \<or> is_space c then c else CHR '' '')
          (toLowerCase text)))"

text \<open>
  \<^verbatim>\<open>wordCount\<close> is a plain object used as a counter. Its own properties are kept in
  creation order. A value is a number, or the string that
  \<^verbatim>\<open>(wordCount[word] || 0) + 1\<close> produces when the lookup finds the inherited
  \<^verbatim>\<open>Object.prototype.constructor\<close> (a function, hence truthy): \<^verbatim>\<open>constructor\<close> is the
  only inherited property name that is a lower-case alphanumeric word.
\<close>

datatype count = Count nat | NotANumber

fun bump :: "(string \<times> count) list \<Rightarrow> string \<Rightarrow> (string \<times> count) list" where
  "bump [] w = [(w, if w = ''constructor'' then NotANumber else Count 1)]"
| "bump ((k, v) # kvs) w =
     (if k = w then (k, (case v of Count n \<Rightarrow> Count (n + 1) | NotANumber \<Rightarrow> NotANumber)) # kvs
      else (k, v) # bump kvs w)"

definition count_words :: "string list \<Rightarrow> (string \<times> count) list" where
  "count_words ws = foldl bump [] ws"

text \<open>
  \<^verbatim>\<open>Object.entries\<close> lists the own properties in the order of OrdinaryOwnPropertyKeys:
  the keys that are array indices (canonical decimal numerals up to \<open>2^32 - 2\<close>) in ascending
  numeric order, then the other keys in creation order.
\<close>

definition digits_value :: "string \<Rightarrow> int" where
  "digits_value s = foldl (\<lambda>n c. 10 * n + ((of_char c :: int) - 48)) 0 s"

definition is_array_index :: "string \<Rightarrow> bool" where
  "is_array_index s =
     (s \<noteq> [] \<and> list_all is_digit s \<and> (s = ''0'' \<or> hd s \<noteq> CHR ''0'')
      \<and> digits_value s \<le> 4294967294)"

definition object_entries :: "(string \<times> count) list \<Rightarrow> (string \<times> count) list" where
  "object_entries obj =
     sort_key (\<lambda>(k, v). digits_value k) (filter (\<lambda>(k, v). is_array_index k) obj)
     @ filter (\<lambda>(k, v). \<not> is_array_index k) obj"

text \<open>
  \<^verbatim>\<open>Array.prototype.sort\<close> with a comparator is stable (ECMAScript 2019); a comparator
  result of NaN counts as 0. On a consistent comparator every stable sort returns what the
  stable insertion sort returns, which is the model.
\<close>

fun insert_by :: "('a \<Rightarrow> 'a \<Rightarrow> int) \<Rightarrow> 'a \<Rightarrow> 'a list \<Rightarrow> 'a list" where
  "insert_by cmp x [] = [x]"
| "insert_by cmp x (y # ys) =
     (if cmp x y \<le> 0 then x # y # ys else y # insert_by cmp x ys)"

definition sort_by :: "('a \<Rightarrow> 'a \<Rightarrow> int) \<Rightarrow> 'a list \<Rightarrow> 'a list" where
  "sort_by cmp xs = foldr (insert_by cmp) xs []"

text \<open>The comparator \<^verbatim>\<open>([,a], [,b]) => b - a\<close>.\<close>

fun by_count_desc :: "string \<times> count \<Rightarrow> string \<times> count \<Rightarrow> int" where
  "by_count_desc (_, Count a) (_, Count b) = int b - int a"
| "by_count_desc _ _ = 0"

text \<open>
  The comparator is consistent on the entries when every count is a number, or when all the
  counts that are numbers are equal (then every comparison yields 0). Otherwise an entry
  that is not a number compares equal to two entries that differ, and ECMAScript leaves the
  order to the engine: the model returns \<open>None\<close> for this result that the source does not
  determine.
\<close>

definition consistent_counts :: "(string \<times> count) list \<Rightarrow> bool" where
  "consistent_counts es =
     (list_all (\<lambda>kv. snd kv \<noteq> NotANumber) es
      \<or> length (remdups (filter (\<lambda>v. v \<noteq> NotANumber) (map snd es))) \<le> 1)"

definition extractKeywords :: "string \<Rightarrow> string list option" where
  "extractKeywords text =
     (let entries = object_entries (count_words (keyword_tokens text))
      in if consistent_counts entries
         then Some (map fst (take 5 (sort_by by_count_desc entries)))
         else None)"

text \<open>
  Notions for stating what \<^const>\<open>extractKeywords\<close> returns. They follow the words of the
  specification and of ECMAScript, not the code: the tokens as the maximal runs of
  alphanumeric characters, the position at which a word is first seen, the order in which
  the keys of the counter are enumerated (array indices by value, then the other keys as
  first seen), and the ranking of the distinct tokens by descending frequency that keeps the
  enumeration order among tokens of equal frequency.
\<close>

fun alnum_runs :: "string \<Rightarrow> string \<Rightarrow> string list" where
  "alnum_runs acc [] = (if acc = [] then [] else [rev acc])"
| "alnum_runs acc (c # cs) =
     (if is_alnum c then alnum_runs (c # acc) cs
      else (if acc = [] then [] else [rev acc]) @ alnum_runs [] cs)"

definition first_seen :: "string list \<Rightarrow> string \<Rightarrow> nat" where
  "first_seen ws w = length (takeWhile (\<lambda>x. x \<noteq> w) ws)"

definition enumeration_order :: "string list \<Rightarrow> string list" where
  "enumeration_order ws =
     sort_key digits_value (filter is_array_index (rev (remdups (rev ws))))
     @ filter (\<lambda>k. \<not> is_array_index k) (rev (remdups (rev ws)))"

definition ranking :: "string list \<Rightarrow> string list" where
  "ranking ws = sort_key (\<lambda>k. - int (count_list ws k)) (enumeration_order ws)"

definition enumerated_before :: "string list \<Rightarrow> string \<Rightarrow> string \<Rightarrow> bool" where
  "enumerated_before ws a b =
     ((is_array_index a \<and> \<not> is_array_index b)
      \<or> (is_array_index a \<and> is_array_index b \<and> digits_value a \<le> digits_value b)
      \<or> (\<not> is_array_index a \<and> \<not> is_array_index b \<and> first_seen ws a < first_seen ws b))"

section \<open>ContentProcessor.analyzeContent\<close>

record analysis =
  toxicityScore :: real
  positiveScore :: real
  sentiment :: string
  category :: string
  isToxic :: bool
  confidence :: real
  keyword_list :: "string list option"
  wordCount :: nat
  language :: string
  error :: "string option"

definition toxicWords :: "string list" where
  "toxicWords = [''hate'', ''stupid'', ''terrible'', ''awful'', ''horrible'', ''disgusting'']"

definition positiveWords :: "string list" where
  "positiveWords = [''great'', ''excellent'', ''amazing'', ''wonderful'', ''fantastic'', ''love'']"

definition categories :: "(string \<times> string list) list" where
  "categories =
     [(''review'', [''product'', ''service'', ''quality'', ''recommend'', ''buy'']),
      (''support'', [''help'', ''problem'', ''issue'', ''bug'', ''error'']),
      (''feedback'', [''suggest'', ''improve'', ''feature'', ''idea'']),
      (''general'', [])]"

text \<open>The \<^verbatim>\<open>forEach\<close> loops: \<^verbatim>\<open>score += weight\<close> for every list word found in the
  text.\<close>

definition keyword_score :: "real \<Rightarrow> string list \<Rightarrow> string \<Rightarrow> real" where
  "keyword_score weight ws textLower =
     foldl (\<lambda>score word. if str_includes textLower word then fadd score weight else score) 0 ws"

text \<open>\<^verbatim>\<open>Math.round(x * 100) / 100\<close>; \<^verbatim>\<open>Math.round\<close> returns the integer nearest to its
  argument, a half going towards plus infinity.\<close>

definition round2 :: "real \<Rightarrow> real" where
  "round2 x = fdiv (of_int \<lfloor>fmul x 100 + 1 / 2\<rfloor>) 100"

text \<open>\<^verbatim>\<open>category || 'general'\<close>: an absent or empty hint is falsy.\<close>

definition category_or_general :: "string option \<Rightarrow> string" where
  "category_or_general hint =
     (case hint of None \<Rightarrow> ''general'' | Some c \<Rightarrow> if c = [] then ''general'' else c)"

text \<open>What the \<^verbatim>\<open>try\<close> block returns for a text that is a string. Every primitive it calls
  is total on strings.\<close>

definition analyzeContent_try :: "string \<Rightarrow> string option \<Rightarrow> analysis" where
  "analyzeContent_try text hint =
     (let textLower = toLowerCase text;
          toxicity = min (keyword_score (double (3 / 10)) toxicWords textLower) 1;
          positive = min (keyword_score (double (2 / 10)) positiveWords textLower) 1;
          sentiment =
            (if positive > toxicity \<and> positive > double (3 / 10) then ''positive''
             else if toxicity > positive \<and> toxicity > double (3 / 10) then ''negative''
             else ''neutral'');
          detectedCategory =
            (case find (\<lambda>(cat, kws). list_ex (str_includes textLower) kws) categories of
               Some (cat, kws) \<Rightarrow> cat
             | None \<Rightarrow> category_or_general hint);
          conf = min (fadd (fadd (fadd (double (5 / 10))
                                   (fmul (fdiv (real (length text)) 200) (double (3 / 10))))
                             (if toxicity > 0 then double (2 / 10) else 0))
                       (if positive > 0 then double (1 / 10) else 0))
                     (double (95 / 100))
      in \<lparr> toxicityScore = round2 toxicity,
           positiveScore = round2 positive,
           sentiment = sentiment,
           category = detectedCategory,
           isToxic = (toxicity > double (5 / 10)),
           confidence = round2 conf,
           keyword_list = extractKeywords text,
           wordCount = length (split_char CHR '' '' [] text),
           language = ''en'',
           error = None \<rparr>)"

text \<open>
  The \<^verbatim>\<open>catch\<close> block, for the message \<open>msg\<close> of the caught error. Its object literal
  evaluates \<^verbatim>\<open>text.split(' ')\<close>, which throws a TypeError when the text is missing.
\<close>

definition analyzeContent_catch :: "string \<Rightarrow> string option \<Rightarrow> string option \<Rightarrow> string + analysis" where
  "analyzeContent_catch msg text hint =
     (case text of
        None \<Rightarrow> Inl ''Cannot read properties of undefined (reading 'split')''
      | Some t \<Rightarrow>
          Inr \<lparr> toxicityScore = 0,
                positiveScore = 0,
                sentiment = ''neutral'',
                category = category_or_general hint,
                isToxic = False,
                confidence = double (1 / 10),
                keyword_list = Some [],
                wordCount = length (split_char CHR '' '' [] t),
                language = ''en'',
                error = Some msg \<rparr>)"

text \<open>
  \<^verbatim>\<open>analyzeContent\<close>. The first statement of the \<^verbatim>\<open>try\<close> block,
  \<^verbatim>\<open>text.toLowerCase()\<close>, throws a TypeError when the text is missing, and the
  \<^verbatim>\<open>catch\<close> block runs; on a string the block returns. \<open>Inl\<close> is the message of the
  error with which the method rejects.
\<close>

definition analyzeContent :: "string option \<Rightarrow> string option \<Rightarrow> string + analysis" where
  "analyzeContent text hint =
     (case text of
        Some t \<Rightarrow> Inr (analyzeContent_try t hint)
      | None \<Rightarrow>
          analyzeContent_catch ''Cannot read properties of undefined (reading 'toLowerCase')''
            text hint)"

text \<open>
  The confidence as the specification words it (section 4.2, step 4, with the rounding of the
  output to two decimals), in exact arithmetic: the length term is
  \<open>0.3 * min(len / 200, 1)\<close>. It is stated on the scores of the result and is compared with
  the code's value below.
\<close>

definition spec_confidence :: "string \<Rightarrow> real \<Rightarrow> real \<Rightarrow> real" where
  "spec_confidence text toxicity positive =
     of_int \<lfloor>min (5 / 10 + (3 / 10) * min (real (length text) / 200) 1
                    + (if toxicity > 0 then 2 / 10 else 0)
                    + (if positive > 0 then 1 / 10 else 0)) (95 / 100) * 100 + 1 / 2\<rfloor> / 100"

section \<open>Content hashes\<close>

text \<open>
  \<^verbatim>\<open>hashContent\<close> (ContentProcessor) and \<^verbatim>\<open>simpleHash\<close> (VectorService) run the
  same loop: \<^verbatim>\<open>hash = ((hash << 5) - hash) + char; hash = hash & hash\<close>. The shift and
  the bitwise and convert to a 32-bit integer, the subtraction and the addition in between
  are exact, so the loop computes in \<^typ>\<open>32 word\<close>. \<^verbatim>\<open>Math.abs\<close> reads the result as a
  signed integer.
\<close>

definition hash_step :: "32 word \<Rightarrow> char \<Rightarrow> 32 word" where
  "hash_step hash c = (push_bit 5 hash - hash) + of_nat (of_char c)"

definition simpleHash :: "string \<Rightarrow> nat" where
  "simpleHash str = nat \<bar>sint (foldl hash_step 0 str)\<bar>"

text \<open>\<^verbatim>\<open>Number.prototype.toString\<close> of a non-negative integer.\<close>

fun decimal :: "nat \<Rightarrow> string" where
  "decimal n =
     (if n < 10 then [char_of (48 + n)] else decimal (n div 10) @ [char_of (48 + n mod 10)])"

definition hashContent :: "string \<Rightarrow> string" where
  "hashContent text = decimal (simpleHash text)"

section \<open>VectorService.generateEmbedding\<close>

definition embeddingDimension :: nat where
  "embeddingDimension = 384"

text \<open>The inner loop body: character \<open>j\<close> of word \<open>i\<close>.\<close>

definition add_char :: "nat \<Rightarrow> real list \<Rightarrow> nat \<times> char \<Rightarrow> real list" where
  "add_char i embedding jc =
     (let charCode = (of_char (snd jc) :: nat);
          index = (charCode * (i + 1) * (fst jc + 1)) mod embeddingDimension
      in embedding[index := embedding ! index + sin (real charCode / 100) * (1 / 10)])"

definition add_word :: "real list \<Rightarrow> nat \<times> string \<Rightarrow> real list" where
  "add_word embedding iw = foldl (add_char (fst iw)) embedding (enumerate 0 (snd iw))"

text \<open>The vector before normalisation: the word loop, then the loop that adds the
  hash-dependent term to every component.\<close>

definition accumulate :: "string \<Rightarrow> real list" where
  "accumulate text =
     (let normalized = filter (\<lambda>c. is_lower_or_digit c \<or> is_space c) (toLowerCase text);
          words = filter (\<lambda>word. length word > 0) (split_ws [] normalized);
          embedding = foldl add_word (replicate embeddingDimension 0) (enumerate 0 words);
          textHash = simpleHash text
      in map (\<lambda>(i, v). v + sin ((real textHash + real i) / 1000) * (5 / 100))
           (enumerate 0 embedding))"

definition magnitude :: "real list \<Rightarrow> real" where
  "magnitude embedding = sqrt (foldl (\<lambda>sum val. sum + val * val) 0 embedding)"

text \<open>The normalisation step: every component is divided by the magnitude, or set to 0 when
  the magnitude is not positive.\<close>

definition normalize_vector :: "real list \<Rightarrow> real list" where
  "normalize_vector embedding =
     (let m = magnitude embedding in map (\<lambda>val. if m > 0 then val / m else 0) embedding)"

text \<open>
  The \<^verbatim>\<open>try\<close> block of \<^verbatim>\<open>generateEmbedding\<close>. On a string it calls total primitives
  only; its \<^verbatim>\<open>catch\<close> block (a random vector, for a fault of the runtime) is not part of
  the model.
\<close>

definition generateEmbedding :: "string \<Rightarrow> real list" where
  "generateEmbedding text = normalize_vector (accumulate text)"

section \<open>The Redis key space and the RedisService wrappers\<close>

datatype json =
    JStr string
  | JNum real
  | JVec "real list"
  | JAnalysis analysis

type_synonym document = "(string \<times> json) list"

record processedEvent =
  ev_contentId :: string
  ev_status :: string
  ev_analysis :: analysis
  ev_processingTime :: int
  ev_timestamp :: int
  ev_isDuplicate :: bool

record socketEvent =
  ws_contentId :: string
  ws_text :: string
  ws_status :: string
  ws_analysis :: analysis
  ws_processingTime :: int
  ws_category :: "string option"
  ws_timestamp :: int

record processingStats =
  totalProcessed :: nat
  totalFlagged :: nat
  totalApproved :: nat
  averageProcessingTime :: real

text \<open>
  The state a message-processing step reads and writes: the Redis data (JSON documents,
  stream entries, the HyperLogLog and the sets as exact sets, time series points, published
  messages), the events emitted on the socket, and the processor's own counters.
\<close>

record state =
  json_docs :: "string \<Rightarrow> document option"
  stream_entries :: "(string \<times> string \<times> (string \<times> string) list) list"
  hyperloglogs :: "string \<Rightarrow> string set"
  redis_sets :: "string \<Rightarrow> string set"
  time_series :: "(string \<times> int \<times> real) list"
  published :: "(string \<times> processedEvent) list"
  emitted :: "socketEvent list"
  stats :: processingStats

text \<open>
  What the environment decides during one step: for each call of the Redis client whether
  it rejects (with which message, where the message is used), and the readings of
  \<^verbatim>\<open>Date.now()\<close> in the order of the calls.
\<close>

record env =
  vector_set_fault :: "string option"
  update_set_fault :: "string option"
  error_set_fault :: "string option"
  ts_add_fault :: bool
  sismember_fault :: bool
  sadd_fault :: bool
  publish_fault :: bool
  now_start :: int
  now_vector :: int
  now_processedAt :: int
  now_processingTime :: int
  now_current :: int
  now_error_processedAt :: int
  now_error_processingTime :: int

text \<open>
  \<^verbatim>\<open>setJSON(key, '$', value)\<close>: every caller passes the root path. The client's
  \<^verbatim>\<open>json.set\<close> at the root path stores \<open>value\<close> as the whole document of the key
  (the document store's \<^verbatim>\<open>put(key, document)\<close>); the wrapper rethrows a rejection.
\<close>

definition setJSON :: "string option \<Rightarrow> string \<Rightarrow> document \<Rightarrow> state \<Rightarrow> string + state" where
  "setJSON fault key value s =
     (case fault of
        Some msg \<Rightarrow> Inl msg
      | None \<Rightarrow> Inr (s\<lparr>json_docs := (json_docs s)(key \<mapsto> value)\<rparr>))"

definition getJSON :: "string \<Rightarrow> state \<Rightarrow> document option" where
  "getJSON key s = json_docs s key"

text \<open>
  \<^verbatim>\<open>storeVector\<close>: the document is \<^verbatim>\<open>{ vector: floatArrayToBuffer(vector), ...metadata }\<close>,
  the spread assigning each property of the metadata in turn; the wrapper rethrows. The
  rounding of the buffer to 32-bit floats is not modelled.
\<close>

definition floatArrayToBuffer :: "real list \<Rightarrow> json" where
  "floatArrayToBuffer array = JVec array"

definition storeVector :: "string option \<Rightarrow> string \<Rightarrow> real list \<Rightarrow> document \<Rightarrow> state \<Rightarrow> string + state" where
  "storeVector fault key vector metadata s =
     (case fault of
        Some msg \<Rightarrow> Inl msg
      | None \<Rightarrow>
          Inr (s\<lparr>json_docs :=
                 (json_docs s)(key \<mapsto>
                    foldl (\<lambda>doc kv. AList.update (fst kv) (snd kv) doc)
                      [(''vector'', floatArrayToBuffer vector)] metadata)\<rparr>))"

text \<open>The wrappers that swallow a rejection and return \<^verbatim>\<open>false\<close>.\<close>

definition addTimeSeriesPoint :: "bool \<Rightarrow> string \<Rightarrow> int \<Rightarrow> real \<Rightarrow> state \<Rightarrow> bool \<times> state" where
  "addTimeSeriesPoint fault key timestamp value s =
     (if fault then (False, s)
      else (True, s\<lparr>time_series := time_series s @ [(key, timestamp, value)]\<rparr>))"

definition addToHyperLogLog :: "bool \<Rightarrow> string \<Rightarrow> string list \<Rightarrow> state \<Rightarrow> bool \<times> state" where
  "addToHyperLogLog fault key elements s =
     (if fault then (False, s)
      else (True, s\<lparr>hyperloglogs := (hyperloglogs s)(key := hyperloglogs s key \<union> set elements)\<rparr>))"

text \<open>The duplicate filter is a Redis set under the key \<^verbatim>\<open>bloom:\<close> followed by the name.\<close>

definition addToBloomFilter :: "bool \<Rightarrow> string \<Rightarrow> string \<Rightarrow> state \<Rightarrow> bool \<times> state" where
  "addToBloomFilter fault key item s =
     (if fault then (False, s)
      else (True, s\<lparr>redis_sets :=
                     (redis_sets s)(''bloom:'' @ key := insert item (redis_sets s (''bloom:'' @ key)))\<rparr>))"

definition checkBloomFilter :: "bool \<Rightarrow> string \<Rightarrow> string \<Rightarrow> state \<Rightarrow> bool" where
  "checkBloomFilter fault key item s =
     (if fault then False else item \<in> redis_sets s (''bloom:'' @ key))"

definition publish :: "bool \<Rightarrow> string \<Rightarrow> processedEvent \<Rightarrow> state \<Rightarrow> bool \<times> state" where
  "publish fault channel message s =
     (if fault then (False, s)
      else (True, s\<lparr>published := published s @ [(channel, message)]\<rparr>))"

text \<open>\<^verbatim>\<open>addToStream\<close> rethrows; the entry id is the one the server assigns.\<close>

definition addToStream ::
  "string option \<Rightarrow> string \<Rightarrow> string \<Rightarrow> (string \<times> string) list \<Rightarrow> state \<Rightarrow> string + (string \<times> state)" where
  "addToStream fault key newId data s =
     (case fault of
        Some msg \<Rightarrow> Inl msg
      | None \<Rightarrow> Inr (newId, s\<lparr>stream_entries := stream_entries s @ [(key, newId, data)]\<rparr>))"

section \<open>VectorService.storeContentVector\<close>

text \<open>\<^verbatim>\<open>String.prototype.substring(0, n)\<close> is \<^const>\<open>take\<close>. A failure of the store is
  caught and turned into \<^verbatim>\<open>false\<close>.\<close>

definition storeContentVector ::
  "string option \<Rightarrow> int \<Rightarrow> string \<Rightarrow> string \<Rightarrow> analysis \<Rightarrow> state \<Rightarrow> bool \<times> state" where
  "storeContentVector fault now contentId text a s =
     (let embedding = generateEmbedding text;
          vectorData =
            [(''vector'', JVec embedding),
             (''text'', JStr (take 500 text)),
             (''status'', JStr (if isToxic a then ''flagged'' else ''approved'')),
             (''category'', JStr (category a)),
             (''sentiment'', JStr (sentiment a)),
             (''toxicityScore'', JNum (toxicityScore a)),
             (''confidence'', JNum (confidence a)),
             (''timestamp'', JNum (of_int now))]
      in case storeVector fault (''content:'' @ contentId) embedding vectorData s of
           Inl msg \<Rightarrow> (False, s)
         | Inr s' \<Rightarrow> (True, s'))"

section \<open>ContentProcessor: submission and the processing step\<close>

text \<open>The constructor's initial counters.\<close>

definition initial_stats :: processingStats where
  "initial_stats =
     \<lparr> totalProcessed = 0, totalFlagged = 0, totalApproved = 0, averageProcessingTime = 0 \<rparr>"

record contentData =
  cd_text :: string
  cd_category :: "string option"
  cd_userId :: "string option"
  cd_source :: "string option"

text \<open>\<^verbatim>\<open>x || d\<close> for an optional string.\<close>

definition or_default :: "string option \<Rightarrow> string \<Rightarrow> string" where
  "or_default x d = (case x of None \<Rightarrow> d | Some v \<Rightarrow> if v = [] then d else v)"

definition streamKey :: string where
  "streamKey = ''content:stream''"

text \<open>
  \<^verbatim>\<open>submitContent\<close>. The environment supplies the fresh uuid, the clock reading, the id
  the stream assigns, and the faults of the three client calls. An exception leaves the
  effects made before it.
\<close>

definition submitContent ::
  "string \<Rightarrow> int \<Rightarrow> string \<Rightarrow> string option \<Rightarrow> string option \<Rightarrow> bool \<Rightarrow>
   contentData \<Rightarrow> state \<Rightarrow> (string + (string \<times> string)) \<times> state" where
  "submitContent contentId timestamp newStreamId xadd_fault set_fault pfadd_fault cd s =
     (let streamData =
            [(''contentId'', contentId),
             (''text'', cd_text cd),
             (''category'', or_default (cd_category cd) ''general''),
             (''userId'', or_default (cd_userId cd) ''anonymous''),
             (''timestamp'', decimal (nat timestamp)),
             (''source'', or_default (cd_source cd) ''web'')]
      in case addToStream xadd_fault streamKey newStreamId streamData s of
           Inl msg \<Rightarrow> (Inl msg, s)
         | Inr (streamId, s1) \<Rightarrow>
             (case setJSON set_fault (''content:'' @ contentId)
                     [(''id'', JStr contentId),
                      (''text'', JStr (cd_text cd)),
                      (''category'', JStr (or_default (cd_category cd) ''general'')),
                      (''userId'', JStr (or_default (cd_userId cd) ''anonymous'')),
                      (''timestamp'', JNum (of_int timestamp)),
                      (''status'', JStr ''pending''),
                      (''source'', JStr (or_default (cd_source cd) ''web'')),
                      (''streamId'', JStr streamId)] s1 of
                Inl msg \<Rightarrow> (Inl msg, s1)
              | Inr s2 \<Rightarrow>
                  (Inr (contentId, streamId),
                   snd (addToHyperLogLog pfadd_fault ''visitors:unique''
                          [or_default (cd_userId cd) ''anonymous''] s2))))"

text \<open>The fields of a stream message that \<^verbatim>\<open>processContent\<close> destructures.\<close>

record message =
  msg_contentId :: string
  msg_text :: "string option"
  msg_category :: "string option"
  msg_userId :: "string option"
  msg_timestamp :: "string option"

datatype outcome =
    Processed
  | Failed string
  | Escaped string

text \<open>The \<^verbatim>\<open>catch\<close> block of \<^verbatim>\<open>processContent\<close>: \<open>Failed\<close> when the error status is
  written, \<open>Escaped\<close> when that write is rejected too and the exception leaves the method.\<close>

definition processContent_catch :: "env \<Rightarrow> message \<Rightarrow> string \<Rightarrow> state \<Rightarrow> outcome \<times> state" where
  "processContent_catch e m msg s =
     (case setJSON (error_set_fault e) (''content:'' @ msg_contentId m)
             [(''status'', JStr ''error''),
              (''error'', JStr msg),
              (''processedAt'', JNum (of_int (now_error_processedAt e))),
              (''processingTime'', JNum (of_int (now_error_processingTime e - now_start e)))] s of
        Inl msg' \<Rightarrow> (Escaped msg', s)
      | Inr s' \<Rightarrow> (Failed msg, s'))"

text \<open>The counter updates of the \<^verbatim>\<open>try\<close> block. The counts are integers; the average is
  a double, updated by \<^verbatim>\<open>(average * (totalProcessed - 1) + processingTime) / totalProcessed\<close>.\<close>

definition count_verdict :: "bool \<Rightarrow> processingStats \<Rightarrow> processingStats" where
  "count_verdict toxic st =
     (if toxic then st\<lparr>totalFlagged := totalFlagged st + 1\<rparr>
      else st\<lparr>totalApproved := totalApproved st + 1\<rparr>)"

definition count_processed :: "int \<Rightarrow> processingStats \<Rightarrow> processingStats" where
  "count_processed processingTime st =
     (let st' = st\<lparr>totalProcessed := totalProcessed st + 1\<rparr>
      in st'\<lparr>averageProcessingTime :=
               fdiv (fadd (fmul (averageProcessingTime st') (real (totalProcessed st') - 1))
                          (of_int processingTime))
                    (real (totalProcessed st'))\<rparr>)"

text \<open>The \<^verbatim>\<open>try\<close> block of \<^verbatim>\<open>processContent\<close> after the analysis has returned, for the
  text (a string) and its analysis.\<close>

definition processContent_analysed ::
  "env \<Rightarrow> message \<Rightarrow> string \<Rightarrow> analysis \<Rightarrow> state \<Rightarrow> outcome \<times> state" where
  "processContent_analysed e m text a s =
     (let contentId = msg_contentId m;
          s1 = snd (storeContentVector (vector_set_fault e) (now_vector e) contentId text a s);
          status = (if isToxic a then ''flagged'' else ''approved'');
          processingTime = now_processingTime e - now_start e;
          contentUpdate =
            [(''analysis'', JAnalysis a),
             (''status'', JStr status),
             (''processedAt'', JNum (of_int (now_processedAt e))),
             (''processingTime'', JNum (of_int processingTime))]
      in case setJSON (update_set_fault e) (''content:'' @ contentId) contentUpdate s1 of
           Inl msg \<Rightarrow> processContent_catch e m msg s1
         | Inr s2 \<Rightarrow>
             (let currentTime = now_current e;
                  s3 = snd (addTimeSeriesPoint (ts_add_fault e) ''metrics:content:processed''
                              currentTime 1 s2);
                  s4 = snd (addTimeSeriesPoint (ts_add_fault e)
                              (if isToxic a then ''metrics:content:flagged''
                               else ''metrics:content:approved'') currentTime 1 s3);
                  s5 = s4\<lparr>stats := count_verdict (isToxic a) (stats s4)\<rparr>;
                  s6 = snd (addTimeSeriesPoint (ts_add_fault e) ''metrics:processing:time''
                              currentTime (of_int processingTime) s5);
                  s7 = snd (addTimeSeriesPoint (ts_add_fault e) ''metrics:accuracy:rate''
                              currentTime (fmul (confidence a) 100) s6);
                  textHash = hashContent text;
                  isDuplicate = checkBloomFilter (sismember_fault e) ''content_hashes'' textHash s7;
                  s8 = (if \<not> isDuplicate
                        then snd (addToBloomFilter (sadd_fault e) ''content_hashes'' textHash s7)
                        else s7);
                  s9 = s8\<lparr>stats := count_processed processingTime (stats s8)\<rparr>;
                  s10 = snd (publish (publish_fault e) ''content:processed''
                               \<lparr> ev_contentId = contentId, ev_status = status, ev_analysis = a,
                                 ev_processingTime = processingTime, ev_timestamp = currentTime,
                                 ev_isDuplicate = isDuplicate \<rparr> s9);
                  s11 = s10\<lparr>emitted := emitted s10 @
                          [\<lparr> ws_contentId = contentId,
                             ws_text = take 100 text @ (if length text > 100 then ''...'' else []),
                             ws_status = status, ws_analysis = a,
                             ws_processingTime = processingTime,
                             ws_category = msg_category m, ws_timestamp = currentTime \<rparr>]\<rparr>
              in (Processed, s11)))"

text \<open>
  \<^verbatim>\<open>processContent\<close>. When the analysis rejects, the \<^verbatim>\<open>catch\<close> block runs on the
  unchanged state. The analysis returns a result for a string only, so the text is at hand
  when the rest of the \<^verbatim>\<open>try\<close> block runs: the branch of a result for a missing text is
  never taken (\<^const>\<open>analyzeContent\<close> on a missing text is \<open>Inl\<close>).
\<close>

definition processContent :: "env \<Rightarrow> message \<Rightarrow> state \<Rightarrow> outcome \<times> state" where
  "processContent e m s =
     (case msg_text m of
        None \<Rightarrow>
          (case analyzeContent None (msg_category m) of
             Inl msg \<Rightarrow> processContent_catch e m msg s
           | Inr a \<Rightarrow> processContent_analysed e m [] a s)
      | Some text \<Rightarrow>
          (case analyzeContent (Some text) (msg_category m) of
             Inl msg \<Rightarrow> processContent_catch e m msg s
           | Inr a \<Rightarrow> processContent_analysed e m text a s))"

text \<open>The consumer processes the delivered messages one after the other; an exception
  that escapes a step is caught by the loop, which goes on with the next message.\<close>

fun process_all :: "(env \<times> message) list \<Rightarrow> state \<Rightarrow> state" where
  "process_all [] s = s"
| "process_all ((e, m) # ems) s = process_all ems (snd (processContent e m s))"

text \<open>
  Notions for stating what the running average holds. They follow the words of the
  specification: the processing times observed for a sequence of messages, and the arithmetic
  mean of a list of values, in exact arithmetic.
\<close>

definition processing_times :: "(env \<times> message) list \<Rightarrow> int list" where
  "processing_times ems = map (\<lambda>em. now_processingTime (fst em) - now_start (fst em)) ems"

definition arithmetic_mean :: "int list \<Rightarrow> real" where
  "arithmetic_mean xs = real_of_int (sum_list xs) / real (length xs)"

section \<open>Example inputs\<close>

definition no_faults :: env where
  "no_faults =
     \<lparr> vector_set_fault = None, update_set_fault = None,
       error_set_fault = None, ts_add_fault = False, sismember_fault = False,
       sadd_fault = False, publish_fault = False,
       now_start = 1000, now_vector = 1001, now_processedAt = 1002,
       now_processingTime = 1003, now_current = 1004,
       now_error_processedAt = 1005, now_error_processingTime = 1006 \<rparr>"

definition fresh_state :: state where
  "fresh_state =
     \<lparr> json_docs = (\<lambda>key. None), stream_entries = [], hyperloglogs = (\<lambda>key. {}),
       redis_sets = (\<lambda>key. {}), time_series = [], published = [], emitted = [],
       stats = initial_stats \<rparr>"

definition message_of :: "string \<Rightarrow> string \<Rightarrow> message" where
  "message_of contentId text =
     \<lparr> msg_contentId = contentId, msg_text = Some text, msg_category = Some ''general'',
       msg_userId = Some ''anonymous'', msg_timestamp = Some ''999'' \<rparr>"

text \<open>A message of the stream route without a \<^verbatim>\<open>text\<close> field.\<close>

definition message_without_text :: message where
  "message_without_text =
     \<lparr> msg_contentId = ''c1'', msg_text = None, msg_category = Some ''general'',
       msg_userId = Some ''anonymous'', msg_timestamp = Some ''999'' \<rparr>"

text \<open>Eight messages whose processing takes 4, 40, 2, 33, 3, 12, 22 and 4 milliseconds.\<close>

definition eight_messages :: "(env \<times> message) list" where
  "eight_messages =
     map (\<lambda>x. (no_faults\<lparr>now_processingTime := 1000 + x\<rparr>, message_of ''c1'' ''hello''))
       [4, 40, 2, 33, 3, 12, 22, 4]"

text \<open>The field of the stored content record of an item, if any.\<close>

definition stored_field :: "string \<Rightarrow> string \<Rightarrow> state \<Rightarrow> json option" where
  "stored_field contentId field s =
     (case getJSON (''content:'' @ contentId) s of
        None \<Rightarrow> None
      | Some doc \<Rightarrow> map_of doc field)"

section \<open>Facts about double arithmetic\<close>

lemma ilog2_bounds: "1 \<le> n \<Longrightarrow> 2 ^ ilog2 n \<le> n \<and> n < 2 ^ Suc (ilog2 n)"
proof (induction n rule: ilog2.induct)
  case (1 n)
  show ?case
  proof (cases "n \<le> 1")
    case True
    with "1.prems" have "n = 1" by simp
    then show ?thesis by simp
  next
    case False
    then have half: "1 \<le> n div 2" by simp
    from "1.IH" [OF False half]
    have lo: "2 ^ ilog2 (n div 2) \<le> n div 2" and hi: "n div 2 < 2 ^ Suc (ilog2 (n div 2))"
      by simp_all
    have unfold: "ilog2 n = Suc (ilog2 (n div 2))"
      using False by (subst ilog2.simps) simp
    have "2 * (n div 2) \<le> n" by simp
    with lo have a: "2 ^ Suc (ilog2 (n div 2)) \<le> n" by simp
    have "n < 2 * (n div 2) + 2" by simp
    moreover have "n div 2 + 1 \<le> 2 ^ Suc (ilog2 (n div 2))" using hi by simp
    ultimately have b: "n < 2 ^ Suc (Suc (ilog2 (n div 2)))" by simp
    show ?thesis
      unfolding unfold using a b by blast
  qed
qed

lemma pow2_pos [simp]: "0 < pow2 e"
  by (simp add: pow2_def)

lemma pow2_nat: "pow2 (int k) = 2 ^ k"
  by (simp add: pow2_def)

lemma pow2_neg_nat: "pow2 (- int k) = 1 / 2 ^ k"
  by (auto simp: pow2_def)

lemma pow2_powi: "pow2 e = 2 powi e"
  by (simp add: pow2_def power_int_def inverse_eq_divide power_one_over)

lemma pow2_add: "pow2 (a + b) = pow2 a * pow2 b"
  by (simp add: pow2_powi power_int_add)

lemma binary_exponent_bounds:
  assumes "0 < x"
  shows "pow2 (binary_exponent x) \<le> x \<and> x < pow2 (binary_exponent x + 1)"
proof (cases "1 \<le> x")
  case True
  define n where "n = \<lfloor>x\<rfloor>"
  define k where "k = ilog2 n"
  have fl: "real_of_int n \<le> x" "x < real_of_int n + 1"
    unfolding n_def using floor_correct [of x] by simp_all
  have n: "1 \<le> n"
    unfolding n_def using True by (simp add: le_floor_iff)
  from ilog2_bounds [OF n]
  have lo: "2 ^ k \<le> n" and hi: "n < 2 ^ Suc k"
    unfolding k_def by simp_all
  have e: "binary_exponent x = int k"
    using True by (simp add: binary_exponent_def n_def k_def)
  have cast: "real_of_int (2 ^ j) = 2 ^ j" for j
    by simp
  have "real_of_int (2 ^ k) \<le> real_of_int n"
    using lo by (simp only: of_int_le_iff)
  then have "(2::real) ^ k \<le> real_of_int n"
    by (simp only: cast)
  then have a: "(2::real) ^ k \<le> x"
    using fl(1) by (rule order_trans)
  have "n + 1 \<le> 2 ^ Suc k" using hi by linarith
  then have "real_of_int (n + 1) \<le> real_of_int (2 ^ Suc k)"
    by (simp only: of_int_le_iff)
  then have "real_of_int n + 1 \<le> (2::real) ^ Suc k"
    by (simp only: cast of_int_add of_int_1)
  with fl(2) have b: "x < (2::real) ^ Suc k"
    by (rule less_le_trans)
  have "pow2 (int k + 1) = pow2 (int (Suc k))"
    by (simp add: add.commute)
  then have "pow2 (int k + 1) = 2 ^ Suc k"
    by (simp only: pow2_nat)
  then show ?thesis
    unfolding e pow2_nat using a b by simp
next
  case False
  define y where "y = 1 / x"
  define n where "n = \<lceil>y\<rceil> - 1"
  define k where "k = ilog2 n"
  have y: "1 < y" "0 < y"
    unfolding y_def using False assms by simp_all
  have xy: "x * y = 1"
    unfolding y_def using assms by simp
  have cl: "real_of_int n < y" "y \<le> real_of_int n + 1"
    unfolding n_def using ceiling_correct [of y] by simp_all
  have "1 < \<lceil>y\<rceil>"
    using y(1) by (simp add: less_ceiling_iff)
  then have n: "1 \<le> n"
    unfolding n_def by linarith
  from ilog2_bounds [OF n]
  have lo: "2 ^ k \<le> n" and hi: "n < 2 ^ Suc k"
    unfolding k_def by simp_all
  have e: "binary_exponent x = - int (Suc k)"
    using False by (simp add: binary_exponent_def n_def k_def y_def)
  have cast: "real_of_int (2 ^ j) = 2 ^ j" for j
    by simp
  have "real_of_int (2 ^ k) \<le> real_of_int n"
    using lo by (simp only: of_int_le_iff)
  then have "(2::real) ^ k \<le> real_of_int n"
    by (simp only: cast)
  then have a: "(2::real) ^ k < y"
    using cl(1) by (rule le_less_trans)
  have "n + 1 \<le> 2 ^ Suc k" using hi by linarith
  then have "real_of_int (n + 1) \<le> real_of_int (2 ^ Suc k)"
    by (simp only: of_int_le_iff)
  then have "real_of_int n + 1 \<le> (2::real) ^ Suc k"
    by (simp only: cast of_int_add of_int_1)
  with cl(2) have b: "y \<le> (2::real) ^ Suc k"
    by (rule order_trans)
  have up: "x < 1 / 2 ^ k"
  proof -
    have "x * 2 ^ k < x * y"
      using a assms by (rule mult_strict_left_mono)
    then have "x * 2 ^ k < 1" by (simp only: xy)
    then show ?thesis by (simp add: pos_less_divide_eq)
  qed
  have low: "1 / 2 ^ Suc k \<le> x"
  proof -
    have "x * y \<le> x * 2 ^ Suc k"
      using b assms by (intro mult_left_mono) simp_all
    then have "1 \<le> x * 2 ^ Suc k" by (simp only: xy)
    then show ?thesis by (simp add: pos_divide_le_eq)
  qed
  have "- int (Suc k) + 1 = - int k" by simp
  then have "pow2 (- int (Suc k) + 1) = 1 / 2 ^ k"
    by (simp only: pow2_neg_nat)
  then show ?thesis
    unfolding e using up low by (simp only: pow2_neg_nat)
qed

lemma round_half_even_error: "\<bar>real_of_int (round_half_even z) - z\<bar> \<le> 1 / 2"
proof -
  have "real_of_int \<lfloor>z\<rfloor> \<le> z" and "z < real_of_int \<lfloor>z\<rfloor> + 1"
    by linarith+
  then show ?thesis
    unfolding round_half_even_def Let_def by (simp split: if_splits)
qed

text \<open>The relative error of rounding is at most \<open>2^-53\<close>.\<close>

lemma double_error: "\<bar>double x - x\<bar> \<le> \<bar>x\<bar> / 2 ^ 53"
proof (cases "x = 0")
  case True
  then show ?thesis by (simp add: double_def)
next
  case False
  let ?e = "binary_exponent \<bar>x\<bar> - 52"
  let ?z = "x / pow2 ?e"
  have pos: "0 < \<bar>x\<bar>" using False by simp
  have "pow2 (binary_exponent \<bar>x\<bar>) \<le> \<bar>x\<bar>"
    using binary_exponent_bounds [OF pos] by blast
  moreover have "pow2 (binary_exponent \<bar>x\<bar>) = pow2 ?e * 2 ^ 52"
    using pow2_add [of ?e 52] pow2_nat [of 52] by simp
  ultimately have big: "pow2 ?e * 2 ^ 52 \<le> \<bar>x\<bar>" by simp
  have d: "double x = real_of_int (round_half_even ?z) * pow2 ?e"
    using False by (simp add: double_def Let_def)
  have nz: "pow2 ?e \<noteq> 0"
    by (metis pow2_pos less_irrefl)
  have "double x - x = (real_of_int (round_half_even ?z) - ?z) * pow2 ?e"
    unfolding d using nz by (simp add: left_diff_distrib)
  then have "\<bar>double x - x\<bar> = \<bar>real_of_int (round_half_even ?z) - ?z\<bar> * pow2 ?e"
    by (simp only: abs_mult abs_of_pos [OF pow2_pos])
  also have "\<dots> \<le> (1 / 2) * pow2 ?e"
    using pow2_pos [of ?e] by (intro mult_right_mono round_half_even_error less_imp_le)
  also have "\<dots> = (pow2 ?e * 2 ^ 52) / 2 ^ 53"
    by simp
  also have "\<dots> \<le> \<bar>x\<bar> / 2 ^ 53"
    using big by (intro divide_right_mono) simp_all
  finally show ?thesis .
qed

lemma double_upper: "0 \<le> x \<Longrightarrow> double x \<le> x * (1 + 1 / 2 ^ 53)"
proof -
  assume "0 \<le> x"
  then have "\<bar>double x - x\<bar> \<le> x / 2 ^ 53"
    using double_error [of x] by simp
  moreover have "x * (1 + 1 / 2 ^ 53) = x + x / 2 ^ 53"
    by (simp only: distrib_left mult_1_right times_divide_eq_right)
  ultimately show ?thesis by linarith
qed

lemma double_lower: "0 \<le> x \<Longrightarrow> x * (1 - 1 / 2 ^ 53) \<le> double x"
proof -
  assume "0 \<le> x"
  then have "\<bar>double x - x\<bar> \<le> x / 2 ^ 53"
    using double_error [of x] by simp
  moreover have "x * (1 - 1 / 2 ^ 53) = x - x / 2 ^ 53"
    by (simp only: right_diff_distrib mult_1_right times_divide_eq_right)
  ultimately show ?thesis by linarith
qed

lemma double_nonneg: "0 \<le> x \<Longrightarrow> 0 \<le> double x"
proof -
  assume x: "0 \<le> x"
  have "0 \<le> x * (1 - 1 / 2 ^ 53)" using x by (intro mult_nonneg_nonneg) simp_all
  with double_lower [OF x] show ?thesis by linarith
qed

lemma double_zero [simp]: "double 0 = 0"
  by (simp add: double_def)

text \<open>Certificates for a single rounding, for the closed computations.\<close>

lemma pow2_mono: "a \<le> b \<Longrightarrow> pow2 a \<le> pow2 b"
  by (simp add: pow2_powi power_int_increasing)

lemma binary_exponent_unique:
  assumes "0 < x" and "pow2 e \<le> x" and "x < pow2 (e + 1)"
  shows "binary_exponent x = e"
proof (rule ccontr)
  assume ne: "binary_exponent x \<noteq> e"
  let ?b = "binary_exponent x"
  have lo: "pow2 ?b \<le> x" and hi: "x < pow2 (?b + 1)"
    using binary_exponent_bounds [OF assms(1)] by blast+
  show False
  proof (cases "?b < e")
    case True
    then have "pow2 (?b + 1) \<le> pow2 e" by (intro pow2_mono) simp
    with hi assms(2) show False by linarith
  next
    case False
    with ne have "e + 1 \<le> ?b" by simp
    then have "pow2 (e + 1) \<le> pow2 ?b" by (rule pow2_mono)
    with lo assms(3) show False by linarith
  qed
qed

lemma round_half_even_nearest:
  assumes "\<bar>z - real_of_int n\<bar> < 1 / 2"
  shows "round_half_even z = n"
proof (cases "real_of_int n \<le> z")
  case True
  with assms have "z < real_of_int n + 1" by linarith
  with True have f: "\<lfloor>z\<rfloor> = n" by (simp add: floor_unique)
  have "z - real_of_int n < 1 / 2" using assms by linarith
  then show ?thesis by (simp add: round_half_even_def Let_def f)
next
  case False
  then have lt: "z < real_of_int n" by simp
  with assms have "real_of_int (n - 1) \<le> z" by simp
  moreover have "z < real_of_int (n - 1) + 1" using lt by simp
  ultimately have f: "\<lfloor>z\<rfloor> = n - 1" by (rule floor_unique)
  have "z - real_of_int (n - 1) > 1 / 2" using assms lt by simp
  then show ?thesis by (simp add: round_half_even_def Let_def f)
qed

text \<open>A certificate for one rounding: the exponent \<open>e\<close> of the argument and the integer
  \<open>n\<close> nearest to the scaled argument.\<close>

lemma double_certificate:
  assumes "pow2 e \<le> \<bar>x\<bar>" and "\<bar>x\<bar> < pow2 (e + 1)"
      and "\<bar>x / pow2 (e - 52) - real_of_int n\<bar> < 1 / 2"
  shows "double x = real_of_int n * pow2 (e - 52)"
proof -
  have pos: "0 < \<bar>x\<bar>"
    using assms(1) pow2_pos [of e] by linarith
  then have nz: "x \<noteq> 0" by simp
  have e: "binary_exponent \<bar>x\<bar> = e"
    using pos assms(1,2) by (rule binary_exponent_unique)
  show ?thesis
    using nz by (simp add: double_def Let_def e round_half_even_nearest [OF assms(3)])
qed

lemma round_half_even_tie:
  assumes "z = real_of_int f + 1 / 2"
  shows "round_half_even z = (if even f then f else f + 1)"
proof -
  have "real_of_int f \<le> z" and "z < real_of_int f + 1"
    using assms by simp_all
  then have f: "\<lfloor>z\<rfloor> = f" by (rule floor_unique)
  show ?thesis
    by (simp add: round_half_even_def Let_def f) (simp add: assms)
qed

lemma double_certificate_tie:
  assumes "pow2 e \<le> \<bar>x\<bar>" and "\<bar>x\<bar> < pow2 (e + 1)"
      and "x / pow2 (e - 52) = real_of_int f + 1 / 2"
  shows "double x = real_of_int (if even f then f else f + 1) * pow2 (e - 52)"
proof -
  have pos: "0 < \<bar>x\<bar>"
    using assms(1) pow2_pos [of e] by linarith
  then have nz: "x \<noteq> 0" by simp
  have e: "binary_exponent \<bar>x\<bar> = e"
    using pos assms(1,2) by (rule binary_exponent_unique)
  show ?thesis
    using nz by (simp only: double_def Let_def e round_half_even_tie [OF assms(3)] if_False)
qed

section \<open>Closed double computations\<close>

text \<open>The values of the operations on doubles that the proofs below evaluate. Each is
  checked with \<open>double_certificate\<close>: the exponent of the exact result and the integer
  nearest to its scaled value.\<close>

lemma double_1_10:
  "double (1 / 10) = 3602879701896397 / 36028797018963968"
proof -
  have "double (1 / 10) = real_of_int 7205759403792794 * pow2 (- 4 - 52)"
    by (rule double_certificate) (simp_all add: pow2_def)
  then show ?thesis by (simp add: pow2_def)
qed

lemma double_1_5:
  "double (1 / 5) = 3602879701896397 / 18014398509481984"
proof -
  have "double (1 / 5) = real_of_int 7205759403792794 * pow2 (- 3 - 52)"
    by (rule double_certificate) (simp_all add: pow2_def)
  then show ?thesis by (simp add: pow2_def)
qed

lemma double_3_10:
  "double (3 / 10) = 5404319552844595 / 18014398509481984"
proof -
  have "double (3 / 10) = real_of_int 5404319552844595 * pow2 (- 2 - 52)"
    by (rule double_certificate) (simp_all add: pow2_def)
  then show ?thesis by (simp add: pow2_def)
qed

lemma double_1_2:
  "double (1 / 2) = 1 / 2"
proof -
  have "double (1 / 2) = real_of_int 4503599627370496 * pow2 (- 1 - 52)"
    by (rule double_certificate) (simp_all add: pow2_def)
  then show ?thesis by (simp add: pow2_def)
qed

lemma double_19_20:
  "double (19 / 20) = 4278419646001971 / 4503599627370496"
proof -
  have "double (19 / 20) = real_of_int 8556839292003942 * pow2 (- 1 - 52)"
    by (rule double_certificate) (simp_all add: pow2_def)
  then show ?thesis by (simp add: pow2_def)
qed

lemma double_3_5:
  "double (3 / 5) = 5404319552844595 / 9007199254740992"
proof -
  have "double (3 / 5) = real_of_int 5404319552844595 * pow2 (- 1 - 52)"
    by (rule double_certificate) (simp_all add: pow2_def)
  then show ?thesis by (simp add: pow2_def)
qed

lemma double_57_100:
  "double (57 / 100) = 5134103575202365 / 9007199254740992"
proof -
  have "double (57 / 100) = real_of_int 5134103575202365 * pow2 (- 1 - 52)"
    by (rule double_certificate) (simp_all add: pow2_def)
  then show ?thesis by (simp add: pow2_def)
qed

lemma toxic_sum_1:
  "fadd 0 (5404319552844595 / 18014398509481984) = 5404319552844595 / 18014398509481984"
proof -
  have "double (0 + 5404319552844595 / 18014398509481984) = real_of_int 5404319552844595 * pow2 (- 2 - 52)"
    by (rule double_certificate) (simp_all add: pow2_def)
  then show ?thesis by (simp add: pow2_def fadd_def)
qed

lemma toxic_sum_2:
  "fadd (5404319552844595 / 18014398509481984) (5404319552844595 / 18014398509481984) = 5404319552844595 / 9007199254740992"
proof -
  have "double (5404319552844595 / 18014398509481984 + 5404319552844595 / 18014398509481984) = real_of_int 5404319552844595 * pow2 (- 1 - 52)"
    by (rule double_certificate) (simp_all add: pow2_def)
  then show ?thesis by (simp add: pow2_def fadd_def)
qed

lemma toxic_sum_3:
  "fadd (5404319552844595 / 9007199254740992) (5404319552844595 / 18014398509481984) = 2026619832316723 / 2251799813685248"
proof -
  have "double (5404319552844595 / 9007199254740992 + 5404319552844595 / 18014398509481984)
          = real_of_int (if even (8106479329266892::int) then 8106479329266892 else 8106479329266892 + 1) * pow2 (- 1 - 52)"
    by (rule double_certificate_tie) (simp_all add: pow2_def)
  then show ?thesis by (simp add: pow2_def fadd_def)
qed

lemma toxic_sum_4:
  "fadd (2026619832316723 / 2251799813685248) (5404319552844595 / 18014398509481984) = 5404319552844595 / 4503599627370496"
proof -
  have "double (2026619832316723 / 2251799813685248 + 5404319552844595 / 18014398509481984) = real_of_int 5404319552844595 * pow2 (0 - 52)"
    by (rule double_certificate) (simp_all add: pow2_def)
  then show ?thesis by (simp add: pow2_def fadd_def)
qed

lemma toxic_sum_5:
  "fadd (5404319552844595 / 4503599627370496) (5404319552844595 / 18014398509481984) = 3 / 2"
proof -
  have "double (5404319552844595 / 4503599627370496 + 5404319552844595 / 18014398509481984) = real_of_int 6755399441055744 * pow2 (0 - 52)"
    by (rule double_certificate) (simp_all add: pow2_def)
  then show ?thesis by (simp add: pow2_def fadd_def)
qed

lemma toxic_sum_6:
  "fadd (3 / 2) (5404319552844595 / 18014398509481984) = 8106479329266893 / 4503599627370496"
proof -
  have "double (3 / 2 + 5404319552844595 / 18014398509481984) = real_of_int 8106479329266893 * pow2 (0 - 52)"
    by (rule double_certificate) (simp_all add: pow2_def)
  then show ?thesis by (simp add: pow2_def fadd_def)
qed

lemma positive_sum_1:
  "fadd 0 (3602879701896397 / 18014398509481984) = 3602879701896397 / 18014398509481984"
proof -
  have "double (0 + 3602879701896397 / 18014398509481984) = real_of_int 7205759403792794 * pow2 (- 3 - 52)"
    by (rule double_certificate) (simp_all add: pow2_def)
  then show ?thesis by (simp add: pow2_def fadd_def)
qed

lemma positive_sum_2:
  "fadd (3602879701896397 / 18014398509481984) (3602879701896397 / 18014398509481984) = 3602879701896397 / 9007199254740992"
proof -
  have "double (3602879701896397 / 18014398509481984 + 3602879701896397 / 18014398509481984) = real_of_int 7205759403792794 * pow2 (- 2 - 52)"
    by (rule double_certificate) (simp_all add: pow2_def)
  then show ?thesis by (simp add: pow2_def fadd_def)
qed

lemma positive_sum_3:
  "fadd (3602879701896397 / 9007199254740992) (3602879701896397 / 18014398509481984) = 1351079888211149 / 2251799813685248"
proof -
  have "double (3602879701896397 / 9007199254740992 + 3602879701896397 / 18014398509481984)
          = real_of_int (if even (5404319552844595::int) then 5404319552844595 else 5404319552844595 + 1) * pow2 (- 1 - 52)"
    by (rule double_certificate_tie) (simp_all add: pow2_def)
  then show ?thesis by (simp add: pow2_def fadd_def)
qed

lemma positive_sum_4:
  "fadd (1351079888211149 / 2251799813685248) (3602879701896397 / 18014398509481984) = 3602879701896397 / 4503599627370496"
proof -
  have "double (1351079888211149 / 2251799813685248 + 3602879701896397 / 18014398509481984)
          = real_of_int (if even (7205759403792794::int) then 7205759403792794 else 7205759403792794 + 1) * pow2 (- 1 - 52)"
    by (rule double_certificate_tie) (simp_all add: pow2_def)
  then show ?thesis by (simp add: pow2_def fadd_def)
qed

lemma positive_sum_5:
  "fadd (3602879701896397 / 4503599627370496) (3602879701896397 / 18014398509481984) = 1"
proof -
  have "double (3602879701896397 / 4503599627370496 + 3602879701896397 / 18014398509481984) = real_of_int 4503599627370496 * pow2 (0 - 52)"
    by (rule double_certificate) (simp_all add: pow2_def)
  then show ?thesis by (simp add: pow2_def fadd_def)
qed

lemma positive_sum_6:
  "fadd 1 (3602879701896397 / 18014398509481984) = 5404319552844595 / 4503599627370496"
proof -
  have "double (1 + 3602879701896397 / 18014398509481984) = real_of_int 5404319552844595 * pow2 (0 - 52)"
    by (rule double_certificate) (simp_all add: pow2_def)
  then show ?thesis by (simp add: pow2_def fadd_def)
qed

lemma round2_zero_scaled:
  "fmul 0 100 = 0"
  by (simp add: fmul_def)

lemma round2_zero_unscaled:
  "fdiv 0 100 = 0"
  by (simp add: fdiv_def)

lemma round2_zero:
  "round2 0 = 0"
  by (simp add: round2_def round2_zero_scaled round2_zero_unscaled)

lemma round2_toxic_1_scaled:
  "fmul (5404319552844595 / 18014398509481984) 100 = 30"
proof -
  have "double (5404319552844595 / 18014398509481984 * 100) = real_of_int 8444249301319680 * pow2 (4 - 52)"
    by (rule double_certificate) (simp_all add: pow2_def)
  then show ?thesis by (simp add: pow2_def fmul_def)
qed

lemma round2_toxic_1_unscaled:
  "fdiv 30 100 = 5404319552844595 / 18014398509481984"
proof -
  have "double (30 / 100) = real_of_int 5404319552844595 * pow2 (- 2 - 52)"
    by (rule double_certificate) (simp_all add: pow2_def)
  then show ?thesis by (simp add: pow2_def fdiv_def)
qed

lemma round2_toxic_1:
  "round2 (5404319552844595 / 18014398509481984) = 5404319552844595 / 18014398509481984"
  by (simp add: round2_def round2_toxic_1_scaled round2_toxic_1_unscaled)

lemma round2_toxic_2_scaled:
  "fmul (5404319552844595 / 9007199254740992) 100 = 60"
proof -
  have "double (5404319552844595 / 9007199254740992 * 100) = real_of_int 8444249301319680 * pow2 (5 - 52)"
    by (rule double_certificate) (simp_all add: pow2_def)
  then show ?thesis by (simp add: pow2_def fmul_def)
qed

lemma round2_toxic_2_unscaled:
  "fdiv 60 100 = 5404319552844595 / 9007199254740992"
proof -
  have "double (60 / 100) = real_of_int 5404319552844595 * pow2 (- 1 - 52)"
    by (rule double_certificate) (simp_all add: pow2_def)
  then show ?thesis by (simp add: pow2_def fdiv_def)
qed

lemma round2_toxic_2:
  "round2 (5404319552844595 / 9007199254740992) = 5404319552844595 / 9007199254740992"
  by (simp add: round2_def round2_toxic_2_scaled round2_toxic_2_unscaled)

lemma round2_toxic_3_scaled:
  "fmul (2026619832316723 / 2251799813685248) 100 = 6333186975989759 / 70368744177664"
proof -
  have "double (2026619832316723 / 2251799813685248 * 100) = real_of_int 6333186975989759 * pow2 (6 - 52)"
    by (rule double_certificate) (simp_all add: pow2_def)
  then show ?thesis by (simp add: pow2_def fmul_def)
qed

lemma round2_toxic_3_unscaled:
  "fdiv 90 100 = 8106479329266893 / 9007199254740992"
proof -
  have "double (90 / 100) = real_of_int 8106479329266893 * pow2 (- 1 - 52)"
    by (rule double_certificate) (simp_all add: pow2_def)
  then show ?thesis by (simp add: pow2_def fdiv_def)
qed

lemma round2_toxic_3:
  "round2 (2026619832316723 / 2251799813685248) = 8106479329266893 / 9007199254740992"
  by (simp add: round2_def round2_toxic_3_scaled round2_toxic_3_unscaled)

lemma round2_one_scaled:
  "fmul 1 100 = 100"
proof -
  have "double (1 * 100) = real_of_int 7036874417766400 * pow2 (6 - 52)"
    by (rule double_certificate) (simp_all add: pow2_def)
  then show ?thesis by (simp add: pow2_def fmul_def)
qed

lemma round2_one_unscaled:
  "fdiv 100 100 = 1"
proof -
  have "double (100 / 100) = real_of_int 4503599627370496 * pow2 (0 - 52)"
    by (rule double_certificate) (simp_all add: pow2_def)
  then show ?thesis by (simp add: pow2_def fdiv_def)
qed

lemma round2_one:
  "round2 1 = 1"
  by (simp add: round2_def round2_one_scaled round2_one_unscaled)

lemma round2_positive_1_scaled:
  "fmul (3602879701896397 / 18014398509481984) 100 = 20"
proof -
  have "double (3602879701896397 / 18014398509481984 * 100) = real_of_int 5629499534213120 * pow2 (4 - 52)"
    by (rule double_certificate) (simp_all add: pow2_def)
  then show ?thesis by (simp add: pow2_def fmul_def)
qed

lemma round2_positive_1_unscaled:
  "fdiv 20 100 = 3602879701896397 / 18014398509481984"
proof -
  have "double (20 / 100) = real_of_int 7205759403792794 * pow2 (- 3 - 52)"
    by (rule double_certificate) (simp_all add: pow2_def)
  then show ?thesis by (simp add: pow2_def fdiv_def)
qed

lemma round2_positive_1:
  "round2 (3602879701896397 / 18014398509481984) = 3602879701896397 / 18014398509481984"
  by (simp add: round2_def round2_positive_1_scaled round2_positive_1_unscaled)

lemma round2_positive_2_scaled:
  "fmul (3602879701896397 / 9007199254740992) 100 = 40"
proof -
  have "double (3602879701896397 / 9007199254740992 * 100) = real_of_int 5629499534213120 * pow2 (5 - 52)"
    by (rule double_certificate) (simp_all add: pow2_def)
  then show ?thesis by (simp add: pow2_def fmul_def)
qed

lemma round2_positive_2_unscaled:
  "fdiv 40 100 = 3602879701896397 / 9007199254740992"
proof -
  have "double (40 / 100) = real_of_int 7205759403792794 * pow2 (- 2 - 52)"
    by (rule double_certificate) (simp_all add: pow2_def)
  then show ?thesis by (simp add: pow2_def fdiv_def)
qed

lemma round2_positive_2:
  "round2 (3602879701896397 / 9007199254740992) = 3602879701896397 / 9007199254740992"
  by (simp add: round2_def round2_positive_2_scaled round2_positive_2_unscaled)

lemma round2_positive_3_scaled:
  "fmul (1351079888211149 / 2251799813685248) 100 = 8444249301319681 / 140737488355328"
proof -
  have "double (1351079888211149 / 2251799813685248 * 100) = real_of_int 8444249301319681 * pow2 (5 - 52)"
    by (rule double_certificate) (simp_all add: pow2_def)
  then show ?thesis by (simp add: pow2_def fmul_def)
qed

lemma round2_positive_3:
  "round2 (1351079888211149 / 2251799813685248) = 5404319552844595 / 9007199254740992"
  by (simp add: round2_def round2_positive_3_scaled round2_toxic_2_unscaled)

lemma round2_positive_4_scaled:
  "fmul (3602879701896397 / 4503599627370496) 100 = 80"
proof -
  have "double (3602879701896397 / 4503599627370496 * 100) = real_of_int 5629499534213120 * pow2 (6 - 52)"
    by (rule double_certificate) (simp_all add: pow2_def)
  then show ?thesis by (simp add: pow2_def fmul_def)
qed

lemma round2_positive_4_unscaled:
  "fdiv 80 100 = 3602879701896397 / 4503599627370496"
proof -
  have "double (80 / 100) = real_of_int 7205759403792794 * pow2 (- 1 - 52)"
    by (rule double_certificate) (simp_all add: pow2_def)
  then show ?thesis by (simp add: pow2_def fdiv_def)
qed

lemma round2_positive_4:
  "round2 (3602879701896397 / 4503599627370496) = 3602879701896397 / 4503599627370496"
  by (simp add: round2_def round2_positive_4_scaled round2_positive_4_unscaled)

lemma conf_300_ratio:
  "fdiv 300 200 = 3 / 2"
proof -
  have "double (300 / 200) = real_of_int 6755399441055744 * pow2 (0 - 52)"
    by (rule double_certificate) (simp_all add: pow2_def)
  then show ?thesis by (simp add: pow2_def fdiv_def)
qed

lemma conf_300_length:
  "fmul (3 / 2) (5404319552844595 / 18014398509481984) = 2026619832316723 / 4503599627370496"
proof -
  have "double (3 / 2 * 5404319552844595 / 18014398509481984)
          = real_of_int (if even (8106479329266892::int) then 8106479329266892 else 8106479329266892 + 1) * pow2 (- 2 - 52)"
    by (rule double_certificate_tie) (simp_all add: pow2_def)
  then show ?thesis by (simp add: pow2_def fmul_def)
qed

lemma conf_300_base:
  "fadd (1 / 2) (2026619832316723 / 4503599627370496) = 4278419646001971 / 4503599627370496"
proof -
  have "double (1 / 2 + 2026619832316723 / 4503599627370496) = real_of_int 8556839292003942 * pow2 (- 1 - 52)"
    by (rule double_certificate) (simp_all add: pow2_def)
  then show ?thesis by (simp add: pow2_def fadd_def)
qed

lemma conf_300_toxic_0:
  "fadd (4278419646001971 / 4503599627370496) 0 = 4278419646001971 / 4503599627370496"
proof -
  have "double (4278419646001971 / 4503599627370496 + 0) = real_of_int 8556839292003942 * pow2 (- 1 - 52)"
    by (rule double_certificate) (simp_all add: pow2_def)
  then show ?thesis by (simp add: pow2_def fadd_def)
qed

lemma round2_cap_scaled:
  "fmul (4278419646001971 / 4503599627370496) 100 = 95"
proof -
  have "double (4278419646001971 / 4503599627370496 * 100) = real_of_int 6685030696878080 * pow2 (6 - 52)"
    by (rule double_certificate) (simp_all add: pow2_def)
  then show ?thesis by (simp add: pow2_def fmul_def)
qed

lemma round2_cap_unscaled:
  "fdiv 95 100 = 4278419646001971 / 4503599627370496"
proof -
  have "double (95 / 100) = real_of_int 8556839292003942 * pow2 (- 1 - 52)"
    by (rule double_certificate) (simp_all add: pow2_def)
  then show ?thesis by (simp add: pow2_def fdiv_def)
qed

lemma round2_cap:
  "round2 (4278419646001971 / 4503599627370496) = 4278419646001971 / 4503599627370496"
  by (simp add: round2_def round2_cap_scaled round2_cap_unscaled)

lemma conf_300_toxic_0_positive_1:
  "fadd (4278419646001971 / 4503599627370496) (3602879701896397 / 36028797018963968) = 4728779608739021 / 4503599627370496"
proof -
  have "double (4278419646001971 / 4503599627370496 + 3602879701896397 / 36028797018963968) = real_of_int 4728779608739021 * pow2 (0 - 52)"
    by (rule double_certificate) (simp_all add: pow2_def)
  then show ?thesis by (simp add: pow2_def fadd_def)
qed

lemma conf_300_toxic_1:
  "fadd (4278419646001971 / 4503599627370496) (3602879701896397 / 18014398509481984) = 2589569785738035 / 2251799813685248"
proof -
  have "double (4278419646001971 / 4503599627370496 + 3602879701896397 / 18014398509481984) = real_of_int 5179139571476070 * pow2 (0 - 52)"
    by (rule double_certificate) (simp_all add: pow2_def)
  then show ?thesis by (simp add: pow2_def fadd_def)
qed

lemma conf_300_toxic_1_positive_0:
  "fadd (2589569785738035 / 2251799813685248) 0 = 2589569785738035 / 2251799813685248"
proof -
  have "double (2589569785738035 / 2251799813685248 + 0) = real_of_int 5179139571476070 * pow2 (0 - 52)"
    by (rule double_certificate) (simp_all add: pow2_def)
  then show ?thesis by (simp add: pow2_def fadd_def)
qed

lemma conf_300_toxic_1_positive_1:
  "fadd (2589569785738035 / 2251799813685248) (3602879701896397 / 36028797018963968) = 5 / 4"
proof -
  have "double (2589569785738035 / 2251799813685248 + 3602879701896397 / 36028797018963968) = real_of_int 5629499534213120 * pow2 (0 - 52)"
    by (rule double_certificate) (simp_all add: pow2_def)
  then show ?thesis by (simp add: pow2_def fadd_def)
qed

lemma conf_400_ratio:
  "fdiv 400 200 = 2"
proof -
  have "double (400 / 200) = real_of_int 4503599627370496 * pow2 (1 - 52)"
    by (rule double_certificate) (simp_all add: pow2_def)
  then show ?thesis by (simp add: pow2_def fdiv_def)
qed

lemma conf_400_length:
  "fmul 2 (5404319552844595 / 18014398509481984) = 5404319552844595 / 9007199254740992"
proof -
  have "double (2 * 5404319552844595 / 18014398509481984) = real_of_int 5404319552844595 * pow2 (- 1 - 52)"
    by (rule double_certificate) (simp_all add: pow2_def)
  then show ?thesis by (simp add: pow2_def fmul_def)
qed

lemma conf_400_base:
  "fadd (1 / 2) (5404319552844595 / 9007199254740992) = 2476979795053773 / 2251799813685248"
proof -
  have "double (1 / 2 + 5404319552844595 / 9007199254740992)
          = real_of_int (if even (4953959590107545::int) then 4953959590107545 else 4953959590107545 + 1) * pow2 (0 - 52)"
    by (rule double_certificate_tie) (simp_all add: pow2_def)
  then show ?thesis by (simp add: pow2_def fadd_def)
qed

lemma conf_400_toxic_0:
  "fadd (2476979795053773 / 2251799813685248) 0 = 2476979795053773 / 2251799813685248"
proof -
  have "double (2476979795053773 / 2251799813685248 + 0) = real_of_int 4953959590107546 * pow2 (0 - 52)"
    by (rule double_certificate) (simp_all add: pow2_def)
  then show ?thesis by (simp add: pow2_def fadd_def)
qed

lemma conf_50_ratio:
  "fdiv 50 200 = 1 / 4"
proof -
  have "double (50 / 200) = real_of_int 4503599627370496 * pow2 (- 2 - 52)"
    by (rule double_certificate) (simp_all add: pow2_def)
  then show ?thesis by (simp add: pow2_def fdiv_def)
qed

lemma conf_50_length:
  "fmul (1 / 4) (5404319552844595 / 18014398509481984) = 5404319552844595 / 72057594037927936"
proof -
  have "double (1 / 4 * 5404319552844595 / 18014398509481984) = real_of_int 5404319552844595 * pow2 (- 4 - 52)"
    by (rule double_certificate) (simp_all add: pow2_def)
  then show ?thesis by (simp add: pow2_def fmul_def)
qed

lemma conf_50_base:
  "fadd (1 / 2) (5404319552844595 / 72057594037927936) = 2589569785738035 / 4503599627370496"
proof -
  have "double (1 / 2 + 5404319552844595 / 72057594037927936) = real_of_int 5179139571476070 * pow2 (- 1 - 52)"
    by (rule double_certificate) (simp_all add: pow2_def)
  then show ?thesis by (simp add: pow2_def fadd_def)
qed

lemma conf_50_toxic_0:
  "fadd (2589569785738035 / 4503599627370496) 0 = 2589569785738035 / 4503599627370496"
proof -
  have "double (2589569785738035 / 4503599627370496 + 0) = real_of_int 5179139571476070 * pow2 (- 1 - 52)"
    by (rule double_certificate) (simp_all add: pow2_def)
  then show ?thesis by (simp add: pow2_def fadd_def)
qed

lemma round2_conf_50_00_scaled:
  "fmul (2589569785738035 / 4503599627370496) 100 = 8092405580431359 / 140737488355328"
proof -
  have "double (2589569785738035 / 4503599627370496 * 100) = real_of_int 8092405580431359 * pow2 (5 - 52)"
    by (rule double_certificate) (simp_all add: pow2_def)
  then show ?thesis by (simp add: pow2_def fmul_def)
qed

lemma round2_conf_50_00_unscaled:
  "fdiv 57 100 = 5134103575202365 / 9007199254740992"
proof -
  have "double (57 / 100) = real_of_int 5134103575202365 * pow2 (- 1 - 52)"
    by (rule double_certificate) (simp_all add: pow2_def)
  then show ?thesis by (simp add: pow2_def fdiv_def)
qed

lemma round2_conf_50_00:
  "round2 (2589569785738035 / 4503599627370496) = 5134103575202365 / 9007199254740992"
  by (simp add: round2_def round2_conf_50_00_scaled round2_conf_50_00_unscaled)

lemma average_1_product:
  "fmul 0 0 = 0"
  by (simp add: fmul_def)

lemma average_1_sum:
  "fadd 0 4 = 4"
proof -
  have "double (0 + 4) = real_of_int 4503599627370496 * pow2 (2 - 52)"
    by (rule double_certificate) (simp_all add: pow2_def)
  then show ?thesis by (simp add: pow2_def fadd_def)
qed

lemma average_1:
  "fdiv 4 1 = 4"
proof -
  have "double (4 / 1) = real_of_int 4503599627370496 * pow2 (2 - 52)"
    by (rule double_certificate) (simp_all add: pow2_def)
  then show ?thesis by (simp add: pow2_def fdiv_def)
qed

lemma average_2_product:
  "fmul 4 1 = 4"
proof -
  have "double (4 * 1) = real_of_int 4503599627370496 * pow2 (2 - 52)"
    by (rule double_certificate) (simp_all add: pow2_def)
  then show ?thesis by (simp add: pow2_def fmul_def)
qed

lemma average_2_sum:
  "fadd 4 40 = 44"
proof -
  have "double (4 + 40) = real_of_int 6192449487634432 * pow2 (5 - 52)"
    by (rule double_certificate) (simp_all add: pow2_def)
  then show ?thesis by (simp add: pow2_def fadd_def)
qed

lemma average_2:
  "fdiv 44 2 = 22"
proof -
  have "double (44 / 2) = real_of_int 6192449487634432 * pow2 (4 - 52)"
    by (rule double_certificate) (simp_all add: pow2_def)
  then show ?thesis by (simp add: pow2_def fdiv_def)
qed

lemma average_3_product:
  "fmul 22 2 = 44"
proof -
  have "double (22 * 2) = real_of_int 6192449487634432 * pow2 (5 - 52)"
    by (rule double_certificate) (simp_all add: pow2_def)
  then show ?thesis by (simp add: pow2_def fmul_def)
qed

lemma average_3_sum:
  "fadd 44 2 = 46"
proof -
  have "double (44 + 2) = real_of_int 6473924464345088 * pow2 (5 - 52)"
    by (rule double_certificate) (simp_all add: pow2_def)
  then show ?thesis by (simp add: pow2_def fadd_def)
qed

lemma average_3:
  "fdiv 46 3 = 8631899285793451 / 562949953421312"
proof -
  have "double (46 / 3) = real_of_int 8631899285793451 * pow2 (3 - 52)"
    by (rule double_certificate) (simp_all add: pow2_def)
  then show ?thesis by (simp add: pow2_def fdiv_def)
qed

lemma average_4_product:
  "fmul (8631899285793451 / 562949953421312) 3 = 46"
proof -
  have "double (8631899285793451 / 562949953421312 * 3) = real_of_int 6473924464345088 * pow2 (5 - 52)"
    by (rule double_certificate) (simp_all add: pow2_def)
  then show ?thesis by (simp add: pow2_def fmul_def)
qed

lemma average_4_sum:
  "fadd 46 33 = 79"
proof -
  have "double (46 + 33) = real_of_int 5559130790035456 * pow2 (6 - 52)"
    by (rule double_certificate) (simp_all add: pow2_def)
  then show ?thesis by (simp add: pow2_def fadd_def)
qed

lemma average_4:
  "fdiv 79 4 = 79 / 4"
proof -
  have "double (79 / 4) = real_of_int 5559130790035456 * pow2 (4 - 52)"
    by (rule double_certificate) (simp_all add: pow2_def)
  then show ?thesis by (simp add: pow2_def fdiv_def)
qed

lemma average_5_product:
  "fmul (79 / 4) 4 = 79"
proof -
  have "double (79 / 4 * 4) = real_of_int 5559130790035456 * pow2 (6 - 52)"
    by (rule double_certificate) (simp_all add: pow2_def)
  then show ?thesis by (simp add: pow2_def fmul_def)
qed

lemma average_5_sum:
  "fadd 79 3 = 82"
proof -
  have "double (79 + 3) = real_of_int 5770237022568448 * pow2 (6 - 52)"
    by (rule double_certificate) (simp_all add: pow2_def)
  then show ?thesis by (simp add: pow2_def fadd_def)
qed

lemma average_5:
  "fdiv 82 5 = 2308094809027379 / 140737488355328"
proof -
  have "double (82 / 5) = real_of_int 4616189618054758 * pow2 (4 - 52)"
    by (rule double_certificate) (simp_all add: pow2_def)
  then show ?thesis by (simp add: pow2_def fdiv_def)
qed

lemma average_6_product:
  "fmul (2308094809027379 / 140737488355328) 5 = 82"
proof -
  have "double (2308094809027379 / 140737488355328 * 5)
          = real_of_int (if even (5770237022568447::int) then 5770237022568447 else 5770237022568447 + 1) * pow2 (6 - 52)"
    by (rule double_certificate_tie) (simp_all add: pow2_def)
  then show ?thesis by (simp add: pow2_def fmul_def)
qed

lemma average_6_sum:
  "fadd 82 12 = 94"
proof -
  have "double (82 + 12) = real_of_int 6614661952700416 * pow2 (6 - 52)"
    by (rule double_certificate) (simp_all add: pow2_def)
  then show ?thesis by (simp add: pow2_def fadd_def)
qed

lemma average_6:
  "fdiv 94 6 = 8819549270267221 / 562949953421312"
proof -
  have "double (94 / 6) = real_of_int 8819549270267221 * pow2 (3 - 52)"
    by (rule double_certificate) (simp_all add: pow2_def)
  then show ?thesis by (simp add: pow2_def fdiv_def)
qed

lemma average_7_product:
  "fmul (8819549270267221 / 562949953421312) 6 = 94"
proof -
  have "double (8819549270267221 / 562949953421312 * 6) = real_of_int 6614661952700416 * pow2 (6 - 52)"
    by (rule double_certificate) (simp_all add: pow2_def)
  then show ?thesis by (simp add: pow2_def fmul_def)
qed

lemma average_7_sum:
  "fadd 94 22 = 116"
proof -
  have "double (94 + 22) = real_of_int 8162774324609024 * pow2 (6 - 52)"
    by (rule double_certificate) (simp_all add: pow2_def)
  then show ?thesis by (simp add: pow2_def fadd_def)
qed

lemma average_7:
  "fdiv 116 7 = 4664442471205157 / 281474976710656"
proof -
  have "double (116 / 7) = real_of_int 4664442471205157 * pow2 (4 - 52)"
    by (rule double_certificate) (simp_all add: pow2_def)
  then show ?thesis by (simp add: pow2_def fdiv_def)
qed

lemma average_8_product:
  "fmul (4664442471205157 / 281474976710656) 7 = 8162774324609025 / 70368744177664"
proof -
  have "double (4664442471205157 / 281474976710656 * 7) = real_of_int 8162774324609025 * pow2 (6 - 52)"
    by (rule double_certificate) (simp_all add: pow2_def)
  then show ?thesis by (simp add: pow2_def fmul_def)
qed

lemma average_8_sum:
  "fadd (8162774324609025 / 70368744177664) 4 = 8444249301319681 / 70368744177664"
proof -
  have "double (8162774324609025 / 70368744177664 + 4) = real_of_int 8444249301319681 * pow2 (6 - 52)"
    by (rule double_certificate) (simp_all add: pow2_def)
  then show ?thesis by (simp add: pow2_def fadd_def)
qed

lemma average_8:
  "fdiv (8444249301319681 / 70368744177664) 8 = 8444249301319681 / 562949953421312"
proof -
  have "double ((8444249301319681 / 70368744177664) / 8) = real_of_int 8444249301319681 * pow2 (3 - 52)"
    by (rule double_certificate) (simp_all add: pow2_def)
  then show ?thesis by (simp add: pow2_def fdiv_def)
qed

section \<open>Effects of the wrappers on the parts of the state\<close>

lemma stats_storeContentVector [simp]:
  "stats (snd (storeContentVector f n c t a s)) = stats s"
  by (simp add: storeContentVector_def storeVector_def Let_def split: option.splits)

lemma stats_addTimeSeriesPoint [simp]:
  "stats (snd (addTimeSeriesPoint f k t v s)) = stats s"
  by (simp add: addTimeSeriesPoint_def)

lemma stats_addToBloomFilter [simp]:
  "stats (snd (addToBloomFilter f k i s)) = stats s"
  by (simp add: addToBloomFilter_def)

lemma stats_publish [simp]:
  "stats (snd (publish f c ev s)) = stats s"
  by (simp add: publish_def)

lemma analyzeContent_missing_text:
  "analyzeContent None hint = Inl ''Cannot read properties of undefined (reading 'split')''"
  by (simp add: analyzeContent_def analyzeContent_catch_def)

lemma analyzeContent_string:
  "analyzeContent (Some t) hint = Inr (analyzeContent_try t hint)"
  by (simp add: analyzeContent_def)

lemma processContent_missing_text:
  "msg_text m = None \<Longrightarrow>
   processContent e m s =
     processContent_catch e m ''Cannot read properties of undefined (reading 'split')'' s"
  by (simp add: processContent_def analyzeContent_missing_text)

lemma processContent_string:
  "msg_text m = Some t \<Longrightarrow>
   processContent e m s =
     processContent_analysed e m t (analyzeContent_try t (msg_category m)) s"
  by (simp add: processContent_def analyzeContent_string)

lemma processContent_analysed_rejected:
  "update_set_fault e = Some msg \<Longrightarrow>
   processContent_analysed e m t a s =
     processContent_catch e m msg
       (snd (storeContentVector (vector_set_fault e) (now_vector e) (msg_contentId m) t a s))"
  by (simp add: processContent_analysed_def setJSON_def Let_def)

lemma stats_processContent_catch [simp]:
  "stats (snd (processContent_catch e m msg s)) = stats s"
  by (simp add: processContent_catch_def setJSON_def split: option.splits)

lemma outcome_processContent_catch:
  "fst (processContent_catch e m msg s) \<noteq> Processed"
  by (simp add: processContent_catch_def setJSON_def split: option.splits)

lemma outcome_processContent_analysed:
  "fst (processContent_analysed e m t a s) = Processed \<longleftrightarrow> update_set_fault e = None"
proof (cases "update_set_fault e")
  case None
  then show ?thesis by (simp add: processContent_analysed_def setJSON_def Let_def)
next
  case (Some msg)
  then show ?thesis
    by (simp add: processContent_analysed_rejected outcome_processContent_catch)
qed

lemma outcome_processContent:
  "fst (processContent e m s) = Processed \<longleftrightarrow> msg_text m \<noteq> None \<and> update_set_fault e = None"
proof (cases "msg_text m")
  case None
  then show ?thesis
    by (simp add: processContent_missing_text outcome_processContent_catch)
next
  case (Some t)
  then show ?thesis
    by (simp add: processContent_string outcome_processContent_analysed)
qed

lemma stats_processContent_ok:
  "msg_text m = Some t \<Longrightarrow> update_set_fault e = None \<Longrightarrow>
   stats (snd (processContent e m s)) =
     count_processed (now_processingTime e - now_start e)
       (count_verdict (isToxic (analyzeContent_try t (msg_category m))) (stats s))"
  by (simp add: processContent_string processContent_analysed_def setJSON_def Let_def)

lemma stats_processContent_rejected:
  "update_set_fault e = Some msg \<Longrightarrow> stats (snd (processContent e m s)) = stats s"
  by (cases "msg_text m")
     (simp_all add: processContent_missing_text processContent_string
        processContent_analysed_rejected)

lemma stats_processContent_missing_text:
  "msg_text m = None \<Longrightarrow> stats (snd (processContent e m s)) = stats s"
  by (simp add: processContent_missing_text)

lemma stats_processContent_not_processed:
  "fst (processContent e m s) \<noteq> Processed \<Longrightarrow> stats (snd (processContent e m s)) = stats s"
proof (cases "msg_text m")
  case None
  then show ?thesis by (simp add: stats_processContent_missing_text)
next
  case (Some t)
  assume "fst (processContent e m s) \<noteq> Processed"
  then obtain msg where "update_set_fault e = Some msg"
    using Some by (auto simp add: outcome_processContent)
  then show ?thesis by (simp add: stats_processContent_rejected)
qed

lemma counters_step:
  assumes "totalProcessed st = totalFlagged st + totalApproved st"
  shows "totalProcessed (count_processed t (count_verdict toxic st))
           = totalFlagged (count_processed t (count_verdict toxic st))
             + totalApproved (count_processed t (count_verdict toxic st))"
  using assms by (simp add: count_processed_def count_verdict_def Let_def)

lemma counters_processContent:
  assumes "totalProcessed (stats s) = totalFlagged (stats s) + totalApproved (stats s)"
  shows "totalProcessed (stats (snd (processContent e m s)))
          = totalFlagged (stats (snd (processContent e m s)))
            + totalApproved (stats (snd (processContent e m s)))"
proof (cases "fst (processContent e m s) = Processed")
  case True
  then obtain t where "msg_text m = Some t" and "update_set_fault e = None"
    by (auto simp add: outcome_processContent)
  then show ?thesis
    using assms by (simp add: stats_processContent_ok counters_step)
next
  case False
  then show ?thesis
    using assms by (simp add: stats_processContent_not_processed)
qed

lemma counters_process_all:
  "totalProcessed (stats s) = totalFlagged (stats s) + totalApproved (stats s) \<Longrightarrow>
   totalProcessed (stats (process_all ems s))
     = totalFlagged (stats (process_all ems s)) + totalApproved (stats (process_all ems s))"
proof (induction ems arbitrary: s)
  case Nil
  then show ?case by simp
next
  case (Cons em ems)
  obtain e m where em: "em = (e, m)" by (cases em)
  show ?case
    using Cons.IH [OF counters_processContent [OF Cons.prems, of e m]] by (simp add: em)
qed

lemma count_verdict_fields [simp]:
  "totalProcessed (count_verdict toxic st) = totalProcessed st"
  "averageProcessingTime (count_verdict toxic st) = averageProcessingTime st"
  by (simp_all add: count_verdict_def)

lemma count_processed_fields:
  "totalProcessed (count_processed t st) = totalProcessed st + 1"
  "averageProcessingTime (count_processed t st)
     = fdiv (fadd (fmul (averageProcessingTime st) (real (totalProcessed st))) (of_int t))
         (real (totalProcessed st) + 1)"
  by (simp_all add: count_processed_def Let_def add.commute)

lemma redis_sets_storeContentVector [simp]:
  "redis_sets (snd (storeContentVector f n c t a s)) = redis_sets s"
  by (simp add: storeContentVector_def storeVector_def Let_def split: option.splits)

lemma published_storeContentVector [simp]:
  "published (snd (storeContentVector f n c t a s)) = published s"
  by (simp add: storeContentVector_def storeVector_def Let_def split: option.splits)

lemma addTimeSeriesPoint_other [simp]:
  "redis_sets (snd (addTimeSeriesPoint f k t v s)) = redis_sets s"
  "published (snd (addTimeSeriesPoint f k t v s)) = published s"
  by (simp_all add: addTimeSeriesPoint_def)

lemma addToBloomFilter_other [simp]:
  "published (snd (addToBloomFilter f k i s)) = published s"
  "redis_sets (snd (addToBloomFilter f k i s))
     = (if f then redis_sets s
        else (redis_sets s)(''bloom:'' @ k := insert i (redis_sets s (''bloom:'' @ k))))"
  by (simp_all add: addToBloomFilter_def)

lemma publish_other [simp]:
  "redis_sets (snd (publish f c ev s)) = redis_sets s"
  "published (snd (publish f c ev s)) = (if f then published s else published s @ [(c, ev)])"
  by (simp_all add: publish_def)

lemma checkBloomFilter_cong:
  "redis_sets s = redis_sets s' \<Longrightarrow> checkBloomFilter f k i s = checkBloomFilter f k i s'"
  by (simp add: checkBloomFilter_def)

lemma published_processContent_ok:
  assumes "msg_text m = Some t" and "update_set_fault e = None"
  shows "published (snd (processContent e m s))
           = (if publish_fault e then published s
              else published s @
                [(''content:processed'',
                  \<lparr> ev_contentId = msg_contentId m,
                    ev_status =
                      (if isToxic (analyzeContent_try t (msg_category m))
                       then ''flagged'' else ''approved''),
                    ev_analysis = analyzeContent_try t (msg_category m),
                    ev_processingTime = now_processingTime e - now_start e,
                    ev_timestamp = now_current e,
                    ev_isDuplicate =
                      checkBloomFilter (sismember_fault e) ''content_hashes'' (hashContent t) s \<rparr>)])"
  using assms
  by (simp add: processContent_string processContent_analysed_def setJSON_def Let_def
        checkBloomFilter_def)

lemma redis_sets_processContent_ok:
  assumes "msg_text m = Some t" and "update_set_fault e = None"
  shows "redis_sets (snd (processContent e m s))
           = (if checkBloomFilter (sismember_fault e) ''content_hashes'' (hashContent t) s
                 \<or> sadd_fault e
              then redis_sets s
              else (redis_sets s)(''bloom:content_hashes'' :=
                     insert (hashContent t) (redis_sets s ''bloom:content_hashes'')))"
  using assms
  by (simp add: processContent_string processContent_analysed_def setJSON_def Let_def
        checkBloomFilter_def)

lemma json_docs_others [simp]:
  "json_docs (snd (addTimeSeriesPoint f k t v s)) = json_docs s"
  "json_docs (snd (addToBloomFilter f' k i s)) = json_docs s"
  "json_docs (snd (publish f' c ev s)) = json_docs s"
  by (simp_all add: addTimeSeriesPoint_def addToBloomFilter_def publish_def)

lemma json_docs_processContent_ok:
  assumes "msg_text m = Some t" and "update_set_fault e = None"
  shows "json_docs (snd (processContent e m s)) (''content:'' @ msg_contentId m)
           = Some [(''analysis'', JAnalysis (analyzeContent_try t (msg_category m))),
                   (''status'',
                     JStr (if isToxic (analyzeContent_try t (msg_category m))
                           then ''flagged'' else ''approved'')),
                   (''processedAt'', JNum (of_int (now_processedAt e))),
                   (''processingTime'', JNum (of_int (now_processingTime e - now_start e)))]"
  using assms
  by (simp add: processContent_string processContent_analysed_def setJSON_def Let_def)

lemma json_docs_processContent_catch:
  assumes "error_set_fault e = None"
  shows "json_docs (snd (processContent_catch e m msg s)) (''content:'' @ msg_contentId m)
           = Some [(''status'', JStr ''error''),
                   (''error'', JStr msg),
                   (''processedAt'', JNum (of_int (now_error_processedAt e))),
                   (''processingTime'',
                     JNum (of_int (now_error_processingTime e - now_start e)))]"
  using assms by (simp add: processContent_catch_def setJSON_def)

lemma json_docs_processContent_failed:
  assumes "update_set_fault e = Some msg" and "error_set_fault e = None"
    and "msg_text m = Some t"
  shows "json_docs (snd (processContent e m s)) (''content:'' @ msg_contentId m)
           = Some [(''status'', JStr ''error''),
                   (''error'', JStr msg),
                   (''processedAt'', JNum (of_int (now_error_processedAt e))),
                   (''processingTime'',
                     JNum (of_int (now_error_processingTime e - now_start e)))]"
  unfolding processContent_string [OF assms(3)] processContent_analysed_rejected [OF assms(1)]
  by (rule json_docs_processContent_catch [OF assms(2)])

lemma stored_field_processContent_ok:
  assumes "msg_text m = Some t" and "update_set_fault e = None"
  shows "stored_field (msg_contentId m) field (snd (processContent e m s))
           = map_of [(''analysis'', JAnalysis (analyzeContent_try t (msg_category m))),
                     (''status'',
                       JStr (if isToxic (analyzeContent_try t (msg_category m))
                             then ''flagged'' else ''approved'')),
                     (''processedAt'', JNum (of_int (now_processedAt e))),
                     (''processingTime'', JNum (of_int (now_processingTime e - now_start e)))]
               field"
  unfolding stored_field_def getJSON_def json_docs_processContent_ok [OF assms]
  by simp

lemma stored_field_processContent_failed:
  assumes "update_set_fault e = Some msg" and "error_set_fault e = None"
    and "msg_text m = Some t"
  shows "stored_field (msg_contentId m) field (snd (processContent e m s))
           = map_of [(''status'', JStr ''error''),
                     (''error'', JStr msg),
                     (''processedAt'', JNum (of_int (now_error_processedAt e))),
                     (''processingTime'',
                       JNum (of_int (now_error_processingTime e - now_start e)))]
               field"
  unfolding stored_field_def getJSON_def json_docs_processContent_failed [OF assms]
  by simp

lemma stored_field_processContent_missing_text:
  assumes "msg_text m = None" and "error_set_fault e = None"
  shows "stored_field (msg_contentId m) field (snd (processContent e m s))
           = map_of [(''status'', JStr ''error''),
                     (''error'', JStr ''Cannot read properties of undefined (reading 'split')''),
                     (''processedAt'', JNum (of_int (now_error_processedAt e))),
                     (''processingTime'',
                       JNum (of_int (now_error_processingTime e - now_start e)))]
               field"
  unfolding stored_field_def getJSON_def processContent_missing_text [OF assms(1)]
    json_docs_processContent_catch [OF assms(2)]
  by simp

section \<open>Facts about the analyzer\<close>

lemma str_includes_sublist: "str_includes t w \<longleftrightarrow> sublist w t"
  by (induction t) (simp_all add: sublist_Cons_right)

lemma str_includes_append: "str_includes t w \<Longrightarrow> str_includes (t @ s) w"
proof -
  assume "str_includes t w"
  then obtain ps ss where "t = ps @ w @ ss"
    by (auto simp: str_includes_sublist sublist_def)
  then have "t @ s = ps @ w @ (ss @ s)" by simp
  then show ?thesis
    unfolding str_includes_sublist sublist_def by blast
qed

lemma str_includes_chars: "str_includes t w \<Longrightarrow> set w \<subseteq> set t"
  by (auto simp: str_includes_sublist sublist_def)

lemma toLowerCase_append: "toLowerCase (t @ s) = toLowerCase t @ toLowerCase s"
  by (simp add: toLowerCase_def)

text \<open>A score is the weight added once for every list word found, starting from 0.\<close>

lemma foldl_keyword_score:
  "foldl (\<lambda>score word. if str_includes t word then fadd score weight else score) acc ws
     = ((\<lambda>score. fadd score weight) ^^ length (filter (str_includes t) ws)) acc"
proof (induction ws arbitrary: acc)
  case Nil
  then show ?case by simp
next
  case (Cons w ws)
  show ?case
    using Cons.IH [of acc] Cons.IH [of "fadd acc weight"]
      funpow_swap1 [of "\<lambda>score. fadd score weight" "length (filter (str_includes t) ws)" acc]
    by simp
qed

lemma keyword_score_count:
  "keyword_score weight ws t
     = ((\<lambda>score. fadd score weight) ^^ length (filter (str_includes t) ws)) 0"
  by (simp add: keyword_score_def foldl_keyword_score)

lemma matches_mono:
  "length (filter (str_includes t) ws) \<le> length (filter (str_includes (t @ s)) ws)"
proof (induction ws)
  case Nil
  then show ?case by simp
next
  case (Cons w ws)
  then show ?case
    using str_includes_append [of t w s] by auto
qed

lemma toxic_matches_le: "length (filter P toxicWords) \<le> 6"
  using length_filter_le [of P toxicWords] by (simp add: toxicWords_def)

lemma positive_matches_le: "length (filter P positiveWords) \<le> 6"
  using length_filter_le [of P positiveWords] by (simp add: positiveWords_def)

lemma up_to_six:
  "k \<le> 6 \<Longrightarrow> k = 0 \<or> k = 1 \<or> k = 2 \<or> k = 3 \<or> k = 4 \<or> k = 5 \<or> k = (6::nat)"
  by linarith

text \<open>The sums \<^verbatim>\<open>0.3 + ... + 0.3\<close> and \<^verbatim>\<open>0.2 + ... + 0.2\<close> of up to six terms, as the
  doubles that the loops compute, and the rounded capped scores made of them.\<close>

lemma toxic_sums:
  assumes "k \<le> 6"
  shows "((\<lambda>score. fadd score (double (3 / 10))) ^^ k) 0
           = 
               [0, 5404319552844595 / 18014398509481984, 5404319552844595 / 9007199254740992, 2026619832316723 / 2251799813685248, 5404319552844595 / 4503599627370496, 3 / 2, 8106479329266893 / 4503599627370496] ! k"
  using up_to_six [OF assms]
  by (elim disjE)
     (simp_all add: eval_nat_numeral double_3_10 toxic_sum_1 toxic_sum_2 toxic_sum_3
        toxic_sum_4 toxic_sum_5 toxic_sum_6)

lemma positive_sums:
  assumes "k \<le> 6"
  shows "((\<lambda>score. fadd score (double (2 / 10))) ^^ k) 0
           = 
               [0, 3602879701896397 / 18014398509481984, 3602879701896397 / 9007199254740992, 1351079888211149 / 2251799813685248, 3602879701896397 / 4503599627370496, 1, 5404319552844595 / 4503599627370496] ! k"
  using up_to_six [OF assms]
  by (elim disjE)
     (simp_all add: eval_nat_numeral double_1_5 positive_sum_1 positive_sum_2 positive_sum_3
        positive_sum_4 positive_sum_5 positive_sum_6)

lemma toxic_scores:
  assumes "k \<le> 6"
  shows "round2 (min (((\<lambda>score. fadd score (double (3 / 10))) ^^ k) 0) 1)
           = 
               [0, 5404319552844595 / 18014398509481984, 5404319552844595 / 9007199254740992, 8106479329266893 / 9007199254740992, 1, 1, 1] ! k"
  unfolding toxic_sums [OF assms]
  using up_to_six [OF assms]
  by (elim disjE)
     (simp_all add: eval_nat_numeral round2_zero round2_toxic_1 round2_toxic_2
        round2_toxic_3 round2_one)

lemma positive_scores:
  assumes "k \<le> 6"
  shows "round2 (min (((\<lambda>score. fadd score (double (2 / 10))) ^^ k) 0) 1)
           = 
               [0, 3602879701896397 / 18014398509481984, 3602879701896397 / 9007199254740992, 5404319552844595 / 9007199254740992, 3602879701896397 / 4503599627370496, 1, 1] ! k"
  unfolding positive_sums [OF assms]
  using up_to_six [OF assms]
  by (elim disjE)
     (simp_all add: eval_nat_numeral round2_zero round2_positive_1 round2_positive_2
        round2_positive_3 round2_positive_4 round2_one)

lemma toxic_score_mono:
  assumes "k \<le> k'" and "k' \<le> 6"
  shows "round2 (min (((\<lambda>score. fadd score (double (3 / 10))) ^^ k) 0) 1)
           \<le> round2 (min (((\<lambda>score. fadd score (double (3 / 10))) ^^ k') 0) 1)"
proof -
  define scores where "scores =
    ([0, 5404319552844595 / 18014398509481984, 5404319552844595 / 9007199254740992, 8106479329266893 / 9007199254740992, 1, 1, 1] :: real list)"
  have k: "k \<le> 6" using assms by simp
  have "sorted scores"
    by (simp add: scores_def)
  moreover have "k' < length scores"
    using assms(2) by (simp add: scores_def)
  ultimately have "scores ! k \<le> scores ! k'"
    using assms(1) by (intro sorted_nth_mono)
  then show ?thesis
    unfolding toxic_scores [OF k] toxic_scores [OF assms(2)] scores_def .
qed

text \<open>A rounded score is positive exactly when the score is: the flags of the confidence
  can be read from the result.\<close>

lemma toxic_flag:
  assumes "k \<le> 6"
  shows "0 < round2 (min (((\<lambda>score. fadd score (double (3 / 10))) ^^ k) 0) 1)
           \<longleftrightarrow> 0 < min (((\<lambda>score. fadd score (double (3 / 10))) ^^ k) 0) 1"
  unfolding toxic_sums [OF assms]
  using up_to_six [OF assms]
  by (elim disjE)
     (simp_all add: eval_nat_numeral round2_zero round2_toxic_1 round2_toxic_2
        round2_toxic_3 round2_one)

lemma positive_flag:
  assumes "k \<le> 6"
  shows "0 < round2 (min (((\<lambda>score. fadd score (double (2 / 10))) ^^ k) 0) 1)
           \<longleftrightarrow> 0 < min (((\<lambda>score. fadd score (double (2 / 10))) ^^ k) 0) 1"
  unfolding positive_sums [OF assms]
  using up_to_six [OF assms]
  by (elim disjE)
     (simp_all add: eval_nat_numeral round2_zero round2_positive_1 round2_positive_2
        round2_positive_3 round2_positive_4 round2_one)

lemma analyzeContent_scores:
  "toxicityScore (analyzeContent_try text hint)
     = round2 (min (keyword_score (double (3 / 10)) toxicWords (toLowerCase text)) 1)"
  "positiveScore (analyzeContent_try text hint)
     = round2 (min (keyword_score (double (2 / 10)) positiveWords (toLowerCase text)) 1)"
  "isToxic (analyzeContent_try text hint)
     \<longleftrightarrow> double (5 / 10) < min (keyword_score (double (3 / 10)) toxicWords (toLowerCase text)) 1"
  by (simp_all add: analyzeContent_try_def Let_def)

lemma analyzeContent_confidence:
  "confidence (analyzeContent_try text hint)
     = round2 (min (fadd (fadd (fadd (double (5 / 10))
                                  (fmul (fdiv (real (length text)) 200) (double (3 / 10))))
                            (if 0 < min (keyword_score (double (3 / 10)) toxicWords
                                           (toLowerCase text)) 1
                             then double (2 / 10) else 0))
                      (if 0 < min (keyword_score (double (2 / 10)) positiveWords
                                     (toLowerCase text)) 1
                       then double (1 / 10) else 0))
                 (double (95 / 100)))"
  by (simp add: analyzeContent_try_def Let_def)

lemma analyzeContent_flags:
  "0 < toxicityScore (analyzeContent_try text hint)
     \<longleftrightarrow> 0 < min (keyword_score (double (3 / 10)) toxicWords (toLowerCase text)) 1"
  "0 < positiveScore (analyzeContent_try text hint)
     \<longleftrightarrow> 0 < min (keyword_score (double (2 / 10)) positiveWords (toLowerCase text)) 1"
  unfolding analyzeContent_scores keyword_score_count
  by (rule toxic_flag [OF toxic_matches_le], rule positive_flag [OF positive_matches_le])

lemma no_keyword_in_run:
  assumes "\<forall>w \<in> set ws. \<not> set w \<subseteq> {c}"
  shows "keyword_score weight ws (replicate n c) = 0"
proof -
  have "filter (str_includes (replicate n c)) ws = []"
  proof (rule filter_False, rule ballI)
    fix w assume "w \<in> set ws"
    then have "\<not> set w \<subseteq> {c}" using assms by blast
    moreover have "set (replicate n c) \<subseteq> {c}" by auto
    ultimately show "\<not> str_includes (replicate n c) w"
      using str_includes_chars [of "replicate n c" w] by blast
  qed
  then show ?thesis by (simp add: keyword_score_count)
qed

lemma toLowerCase_run_x: "toLowerCase (replicate n CHR ''x'') = replicate n CHR ''x''"
proof -
  have "lower_char CHR ''x'' = CHR ''x''" by code_simp
  then show ?thesis by (simp add: toLowerCase_def)
qed

lemma run_x_scores:
  "keyword_score weight toxicWords (toLowerCase (replicate n CHR ''x'')) = 0"
  "keyword_score weight positiveWords (toLowerCase (replicate n CHR ''x'')) = 0"
  unfolding toLowerCase_run_x
  by (rule no_keyword_in_run, simp add: toxicWords_def positiveWords_def)+

text \<open>A text of more than 300 characters: whatever the rounding errors, the sum is above
  the cap.\<close>

lemma double_ge:
  assumes "0 \<le> a" and "a \<le> x"
  shows "a * (999999 / 1000000) \<le> double x"
proof -
  have x: "0 \<le> x" using assms by simp
  have "a * (999999 / 1000000) \<le> x * (999999 / 1000000)"
    using assms(2) by (intro mult_right_mono) simp_all
  also have "\<dots> \<le> x * (1 - 1 / 2 ^ 53)"
    using x by (intro mult_left_mono) simp_all
  also have "\<dots> \<le> double x"
    using x by (rule double_lower)
  finally show ?thesis .
qed

lemma long_text_sum:
  assumes "301 \<le> n" and "0 \<le> tf" and "0 \<le> pf"
  shows "double (95 / 100)
           \<le> fadd (fadd (fadd (double (5 / 10)) (fmul (fdiv (real n) 200) (double (3 / 10)))) tf) pf"
proof -
  define w :: real where "w = 999999 / 1000000"
  define A :: real where "A = 5404319552844595 / 18014398509481984"
  have w: "0 \<le> w" and A: "0 \<le> A"
    by (simp_all add: w_def A_def)
  have "301 / 200 \<le> real n / 200"
    using assms(1) by simp
  then have q: "301 / 200 * w \<le> fdiv (real n) 200"
    unfolding fdiv_def w_def by (intro double_ge) simp_all
  have "301 / 200 * w * A \<le> fdiv (real n) 200 * A"
    using q A by (rule mult_right_mono)
  then have p: "301 / 200 * w * A * w \<le> fmul (fdiv (real n) 200) A"
    unfolding fmul_def w_def using A by (intro double_ge) (simp_all add: A_def)
  have "1 / 2 + 301 / 200 * w * A * w \<le> 1 / 2 + fmul (fdiv (real n) 200) A"
    using p by simp
  then have b: "(1 / 2 + 301 / 200 * w * A * w) * w \<le> fadd (1 / 2) (fmul (fdiv (real n) 200) A)"
    unfolding fadd_def w_def by (intro double_ge) (simp_all add: A_def)
  have b0: "0 \<le> (1 / 2 + 301 / 200 * w * A * w) * w"
    by (simp add: w_def A_def)
  have "(1 / 2 + 301 / 200 * w * A * w) * w
          \<le> fadd (1 / 2) (fmul (fdiv (real n) 200) A) + tf"
    using b assms(2) by simp
  then have t: "(1 / 2 + 301 / 200 * w * A * w) * w * w
          \<le> fadd (fadd (1 / 2) (fmul (fdiv (real n) 200) A)) tf"
    unfolding fadd_def [of _ tf] w_def using b0 by (intro double_ge) (simp_all add: w_def)
  have t0: "0 \<le> (1 / 2 + 301 / 200 * w * A * w) * w * w"
    by (simp add: w_def A_def)
  have "(1 / 2 + 301 / 200 * w * A * w) * w * w
          \<le> fadd (fadd (1 / 2) (fmul (fdiv (real n) 200) A)) tf + pf"
    using t assms(3) by simp
  then have r: "(1 / 2 + 301 / 200 * w * A * w) * w * w * w
          \<le> fadd (fadd (fadd (1 / 2) (fmul (fdiv (real n) 200) A)) tf) pf"
    unfolding fadd_def [of _ pf] w_def using t0 by (intro double_ge) (simp_all add: w_def)
  have "(4278419646001971 / 4503599627370496 :: real)
          \<le> (1 / 2 + 301 / 200 * w * A * w) * w * w * w"
    by (simp add: w_def A_def)
  with r show ?thesis
    by (simp add: double_19_20 double_1_2 double_3_10 A_def)
qed

lemma confidence_of_long_text:
  assumes "300 \<le> length text"
  shows "confidence (analyzeContent_try text hint) = double (95 / 100)"
proof (cases "length text = 300")
  case True
  show ?thesis
    unfolding analyzeContent_confidence True
    by (simp add: double_1_10 double_1_5 double_3_10 double_1_2 double_19_20
          conf_300_ratio conf_300_length conf_300_base conf_300_toxic_0 conf_300_toxic_1
          conf_300_toxic_0_positive_1 conf_300_toxic_1_positive_0 conf_300_toxic_1_positive_1
          round2_cap)
next
  case False
  with assms have n: "301 \<le> length text" by simp
  let ?tf = "if 0 < min (keyword_score (double (3 / 10)) toxicWords (toLowerCase text)) 1
             then double (2 / 10) else 0"
  let ?pf = "if 0 < min (keyword_score (double (2 / 10)) positiveWords (toLowerCase text)) 1
             then double (1 / 10) else 0"
  have "0 \<le> ?tf" and "0 \<le> ?pf"
    by (simp_all add: double_nonneg)
  with n have "double (95 / 100)
      \<le> fadd (fadd (fadd (double (5 / 10))
                       (fmul (fdiv (real (length text)) 200) (double (3 / 10)))) ?tf) ?pf"
    by (rule long_text_sum)
  then have "min (fadd (fadd (fadd (double (5 / 10))
                       (fmul (fdiv (real (length text)) 200) (double (3 / 10)))) ?tf) ?pf)
               (double (95 / 100)) = double (95 / 100)"
    by (rule min_absorb2)
  then have "confidence (analyzeContent_try text hint) = round2 (double (95 / 100))"
    unfolding analyzeContent_confidence by (rule arg_cong)
  then show ?thesis
    by (simp add: double_19_20 round2_cap)
qed

lemma double_near:
  assumes "0 \<le> x" and "x \<le> 128"
  shows "\<bar>double x - x\<bar> \<le> 1 / 10 ^ 13"
proof -
  have "\<bar>double x - x\<bar> \<le> \<bar>x\<bar> / 2 ^ 53"
    by (rule double_error)
  also have "\<dots> \<le> 128 / 2 ^ 53"
    using assms by (intro divide_right_mono) simp_all
  also have "\<dots> \<le> (1 / 10 ^ 13 :: real)"
    by simp
  finally show ?thesis .
qed

lemma floor_near:
  fixes x y :: real
  assumes "\<bar>x - y\<bar> \<le> 1 / 2"
  shows "\<bar>\<lfloor>x\<rfloor> - \<lfloor>y\<rfloor>\<bar> \<le> 1"
proof -
  have x: "real_of_int \<lfloor>x\<rfloor> \<le> x" "x < real_of_int \<lfloor>x\<rfloor> + 1"
    and y: "real_of_int \<lfloor>y\<rfloor> \<le> y" "y < real_of_int \<lfloor>y\<rfloor> + 1"
    by - linarith+
  have "real_of_int \<lfloor>x\<rfloor> < real_of_int \<lfloor>y\<rfloor> + 2"
    using x y assms by linarith
  then have "real_of_int \<lfloor>x\<rfloor> < real_of_int (\<lfloor>y\<rfloor> + 2)"
    by simp
  then have a: "\<lfloor>x\<rfloor> < \<lfloor>y\<rfloor> + 2"
    by (simp only: of_int_less_iff)
  have "real_of_int \<lfloor>y\<rfloor> < real_of_int \<lfloor>x\<rfloor> + 2"
    using x y assms by linarith
  then have "real_of_int \<lfloor>y\<rfloor> < real_of_int (\<lfloor>x\<rfloor> + 2)"
    by simp
  then have b: "\<lfloor>y\<rfloor> < \<lfloor>x\<rfloor> + 2"
    by (simp only: of_int_less_iff)
  show ?thesis using a b by simp
qed

text \<open>The confidence of a text of at most 200 characters is the exactly evaluated formula up
  to one hundredth: the rounding of the doubles can move the sum across a rounding
  boundary of \<^verbatim>\<open>Math.round\<close>.\<close>

lemma confidence_near_formula:
  fixes tf pf tf' pf' :: real
  assumes "n \<le> 200"
      and "0 \<le> tf'" and "\<bar>tf' - tf\<bar> \<le> 1 / 10 ^ 13" and "tf \<le> 1"
      and "0 \<le> pf'" and "\<bar>pf' - pf\<bar> \<le> 1 / 10 ^ 13" and "pf \<le> 1"
  shows "\<bar>round2 (min (fadd (fadd (fadd (double (5 / 10))
                                     (fmul (fdiv (real n) 200) (double (3 / 10)))) tf') pf')
                     (double (95 / 100)))
          - real_of_int \<lfloor>min (5 / 10 + (3 / 10) * (real n / 200) + tf + pf) (95 / 100) * 100
                            + 1 / 2\<rfloor> / 100\<bar>
           \<le> 1 / 100 + 1 / 2 ^ 53"
proof -
  define e :: real where "e = 1 / 10000000000000"
  define A :: real where "A = 5404319552844595 / 18014398509481984"
  define D :: real where "D = 4278419646001971 / 4503599627370496"
  define q where "q = real n / 200"
  define q' where "q' = fdiv (real n) 200"
  define p' where "p' = fmul q' A"
  define b' where "b' = fadd (1 / 2) p'"
  define t' where "t' = fadd b' tf'"
  define r' where "r' = fadd t' pf'"
  define m' where "m' = min r' D"
  define c where "c = 5 / 10 + (3 / 10) * q + tf + pf"
  define m where "m = min c (95 / 100)"
  define y' where "y' = fmul m' 100"
  define k' where "k' = \<lfloor>y' + 1 / 2\<rfloor>"
  define k where "k = \<lfloor>m * 100 + 1 / 2\<rfloor>"
  have near: "\<bar>double x - x\<bar> \<le> e" if "0 \<le> x" and "x \<le> 128" for x
    using double_near [OF that] by (simp add: e_def)
  have tf: "\<bar>tf' - tf\<bar> \<le> e" and pf: "\<bar>pf' - pf\<bar> \<le> e"
    using assms(3,6) by (simp_all add: e_def)
  have q: "0 \<le> q" "q \<le> 1"
    using assms(1) by (simp_all add: q_def)
  have q'0: "0 \<le> q'"
    unfolding q'_def fdiv_def by (rule double_nonneg) simp
  have q': "\<bar>q' - q\<bar> \<le> e"
    unfolding q'_def q_def fdiv_def using q by (intro near) (simp_all add: q_def)
  have qA1: "0 \<le> q' * A"
    using q'0 unfolding A_def by simp
  have qA2: "q' * A \<le> 128"
    using q'0 q' q unfolding A_def e_def by linarith
  have p'0: "0 \<le> p'"
    unfolding p'_def fmul_def using qA1 by (rule double_nonneg)
  have "\<bar>p' - q' * A\<bar> \<le> e"
    unfolding p'_def fmul_def using qA1 qA2 by (rule near)
  then have p': "\<bar>p' - (3 / 10) * q\<bar> \<le> 3 * e"
    using q' q unfolding A_def e_def by linarith
  have b1: "0 \<le> 1 / 2 + p'"
    using p'0 by simp
  have b2: "1 / 2 + p' \<le> 128"
    using p' q unfolding e_def by linarith
  have b'0: "0 \<le> b'"
    unfolding b'_def fadd_def using b1 by (rule double_nonneg)
  have "\<bar>b' - (1 / 2 + p')\<bar> \<le> e"
    unfolding b'_def fadd_def using b1 b2 by (rule near)
  then have b': "\<bar>b' - (1 / 2 + (3 / 10) * q)\<bar> \<le> 4 * e"
    using p' by linarith
  have t1: "0 \<le> b' + tf'"
    using b'0 assms(2) by simp
  have t2: "b' + tf' \<le> 128"
    using b' q tf assms(4) unfolding e_def by linarith
  have t'0: "0 \<le> t'"
    unfolding t'_def fadd_def using t1 by (rule double_nonneg)
  have "\<bar>t' - (b' + tf')\<bar> \<le> e"
    unfolding t'_def fadd_def using t1 t2 by (rule near)
  then have t': "\<bar>t' - (1 / 2 + (3 / 10) * q + tf)\<bar> \<le> 6 * e"
    using b' tf by linarith
  have r1: "0 \<le> t' + pf'"
    using t'0 assms(5) by simp
  have r2: "t' + pf' \<le> 128"
    using t' q pf assms(4,7) unfolding e_def by linarith
  have r'0: "0 \<le> r'"
    unfolding r'_def fadd_def using r1 by (rule double_nonneg)
  have "\<bar>r' - (t' + pf')\<bar> \<le> e"
    unfolding r'_def fadd_def using r1 r2 by (rule near)
  then have r': "\<bar>r' - c\<bar> \<le> 8 * e"
    using t' pf unfolding c_def by linarith
  have D: "\<bar>D - 95 / 100\<bar> \<le> 8 * e" "0 \<le> D"
    by (simp_all add: D_def e_def)
  have m': "\<bar>m' - m\<bar> \<le> 8 * e"
    using r' D(1) unfolding m'_def m_def by linarith
  have m'0: "0 \<le> m'" "m' \<le> D"
    using r'0 D(2) by (simp_all add: m'_def)
  have y1: "0 \<le> m' * 100"
    using m'0(1) by simp
  have y2: "m' * 100 \<le> 128"
    using m'0(2) unfolding D_def by linarith
  have y'0: "0 \<le> y'"
    unfolding y'_def fmul_def using y1 by (rule double_nonneg)
  have "\<bar>y' - m' * 100\<bar> \<le> e"
    unfolding y'_def fmul_def using y1 y2 by (rule near)
  then have y': "\<bar>y' - m * 100\<bar> \<le> 801 * e"
    using m' by linarith
  then have "\<bar>(y' + 1 / 2) - (m * 100 + 1 / 2)\<bar> \<le> 1 / 2"
    unfolding e_def by linarith
  then have kk: "\<bar>k' - k\<bar> \<le> 1"
    unfolding k'_def k_def by (rule floor_near)
  have k'0: "0 \<le> k'"
    unfolding k'_def using y'0 by simp
  have "m \<le> 95 / 100"
    by (simp add: m_def)
  then have "y' + 1 / 2 < 97"
    using y' unfolding e_def by linarith
  then have "k' < 97"
    unfolding k'_def by (simp add: floor_less_iff)
  then have k'1: "real_of_int k' / 100 \<le> 1" "0 \<le> real_of_int k' / 100"
    using k'0 by simp_all
  have "\<bar>double (real_of_int k' / 100) - real_of_int k' / 100\<bar>
          \<le> \<bar>real_of_int k' / 100\<bar> / 2 ^ 53"
    by (rule double_error)
  also have "\<dots> \<le> 1 / 2 ^ 53"
    using k'1 by (intro divide_right_mono) simp_all
  finally have last: "\<bar>fdiv (real_of_int k') 100 - real_of_int k' / 100\<bar> \<le> 1 / 2 ^ 53"
    by (simp add: fdiv_def)
  have "\<bar>real_of_int k' - real_of_int k\<bar> \<le> 1"
    using kk by linarith
  then have "\<bar>real_of_int k' / 100 - real_of_int k / 100\<bar> \<le> 1 / 100"
    by linarith
  with last have "\<bar>fdiv (real_of_int k') 100 - real_of_int k / 100\<bar> \<le> 1 / 100 + 1 / 2 ^ 53"
    by linarith
  moreover have "round2 (min (fadd (fadd (fadd (double (5 / 10))
                                     (fmul (fdiv (real n) 200) (double (3 / 10)))) tf') pf')
                     (double (95 / 100))) = fdiv (real_of_int k') 100"
    by (simp add: round2_def k'_def y'_def m'_def r'_def t'_def b'_def p'_def q'_def A_def D_def
          double_1_2 double_3_10 double_19_20)
  moreover have "real_of_int \<lfloor>min (5 / 10 + (3 / 10) * (real n / 200) + tf + pf) (95 / 100) * 100
                            + 1 / 2\<rfloor> / 100 = real_of_int k / 100"
    by (simp add: k_def m_def c_def q_def)
  ultimately show ?thesis
    by simp
qed

lemma confidence_near_spec:
  assumes "length text \<le> 200"
  shows "\<bar>confidence (analyzeContent_try text hint)
           - spec_confidence text (toxicityScore (analyzeContent_try text hint))
               (positiveScore (analyzeContent_try text hint))\<bar>
           \<le> 1 / 100 + 1 / 2 ^ 53"
proof -
  let ?tox = "0 < min (keyword_score (double (3 / 10)) toxicWords (toLowerCase text)) 1"
  let ?pos = "0 < min (keyword_score (double (2 / 10)) positiveWords (toLowerCase text)) 1"
  have short: "min (real (length text) / 200) 1 = real (length text) / 200"
    using assms by simp
  have tf: "0 \<le> (if ?tox then double (2 / 10) else 0)"
           "\<bar>(if ?tox then double (2 / 10) else 0) - (if ?tox then 2 / 10 else 0)\<bar> \<le> 1 / 10 ^ 13"
           "(if ?tox then 2 / 10 else 0) \<le> (1::real)"
    by (simp_all add: double_1_5)
  have pf: "0 \<le> (if ?pos then double (1 / 10) else 0)"
           "\<bar>(if ?pos then double (1 / 10) else 0) - (if ?pos then 1 / 10 else 0)\<bar> \<le> 1 / 10 ^ 13"
           "(if ?pos then 1 / 10 else 0) \<le> (1::real)"
    by (simp_all add: double_1_10)
  show ?thesis
    unfolding analyzeContent_confidence spec_confidence_def analyzeContent_flags short
    by (rule confidence_near_formula [OF assms tf pf])
qed

lemma scenario_B_matches:
  "length (filter (str_includes (toLowerCase ''I hate this stupid thing, complete waste of money!''))
     toxicWords) = 2"
  by code_simp

lemma scenario_B_toxicity:
  "keyword_score (double (3 / 10)) toxicWords
     (toLowerCase ''I hate this stupid thing, complete waste of money!'')
   = 5404319552844595 / 9007199254740992"
  unfolding keyword_score_count scenario_B_matches
  by (simp add: eval_nat_numeral double_3_10 toxic_sum_1 toxic_sum_2)

section \<open>Facts about the running average\<close>

lemma process_all_append: "process_all (xs @ ys) s = process_all ys (process_all xs s)"
  by (induction xs arbitrary: s) auto

lemma average_processContent_ok:
  assumes "msg_text m \<noteq> None" and "update_set_fault e = None"
  shows "totalProcessed (stats (snd (processContent e m s))) = totalProcessed (stats s) + 1"
    and "averageProcessingTime (stats (snd (processContent e m s)))
           = fdiv (fadd (fmul (averageProcessingTime (stats s)) (real (totalProcessed (stats s))))
                        (of_int (now_processingTime e - now_start e)))
                  (real (totalProcessed (stats s)) + 1)"
proof -
  obtain t where t: "msg_text m = Some t"
    using assms(1) by blast
  show "totalProcessed (stats (snd (processContent e m s))) = totalProcessed (stats s) + 1"
    by (simp add: stats_processContent_ok [OF t assms(2)] count_processed_fields)
  show "averageProcessingTime (stats (snd (processContent e m s)))
           = fdiv (fadd (fmul (averageProcessingTime (stats s)) (real (totalProcessed (stats s))))
                        (of_int (now_processingTime e - now_start e)))
                  (real (totalProcessed (stats s)) + 1)"
    by (simp add: stats_processContent_ok [OF t assms(2)] count_processed_fields)
qed

text \<open>The count and the average after a sequence of processed messages, as the iteration of
  the update on the pair.\<close>

lemma average_process_all:
  assumes "\<forall>em \<in> set ems. msg_text (snd em) \<noteq> None \<and> update_set_fault (fst em) = None"
  shows "(totalProcessed (stats (process_all ems s)),
          averageProcessingTime (stats (process_all ems s)))
         = foldl (\<lambda>(n, avg) em.
                    (n + 1,
                     fdiv (fadd (fmul avg (real n))
                                (of_int (now_processingTime (fst em) - now_start (fst em))))
                          (real n + 1)))
             (totalProcessed (stats s), averageProcessingTime (stats s)) ems"
  using assms
proof (induction ems arbitrary: s)
  case Nil
  then show ?case by simp
next
  case (Cons em ems)
  obtain e m where em: "em = (e, m)" by (cases em)
  have ok: "msg_text m \<noteq> None" "update_set_fault e = None"
    using Cons.prems by (simp_all add: em)
  have rest: "\<forall>em \<in> set ems. msg_text (snd em) \<noteq> None \<and> update_set_fault (fst em) = None"
    using Cons.prems by simp
  show ?case
    using Cons.IH [OF rest, of "snd (processContent e m s)"]
    by (simp add: em average_processContent_ok [OF ok])
qed

text \<open>One update keeps the average within the rounding errors of its three operations.\<close>

lemma online_step_upper:
  fixes a S x U :: real
  assumes "0 \<le> S" and "0 \<le> x" and "0 \<le> a" and "U = 1 + 1 / 2 ^ 53"
      and "a * real n \<le> S * U ^ (3 * n)"
  shows "fdiv (fadd (fmul a (real n)) x) (real n + 1) * (real n + 1)
           \<le> (S + x) * U ^ (3 * Suc n)"
proof -
  let ?p = "fmul a (real n)"
  let ?q = "fadd ?p x"
  let ?E = "U ^ (3 * n)"
  have U: "1 \<le> U" "0 \<le> U" using assms(4) by simp_all
  have E: "1 \<le> ?E" using U(1) by (rule one_le_power)
  have E0: "0 \<le> ?E" using E by simp
  have an: "0 \<le> a * real n" using assms(3) by simp
  have "?p \<le> a * real n * U"
    unfolding fmul_def assms(4) using an by (rule double_upper)
  also have "\<dots> \<le> S * ?E * U"
    using assms(5) U(2) by (rule mult_right_mono)
  finally have p: "?p \<le> S * ?E * U" .
  have p0: "0 \<le> ?p"
    unfolding fmul_def using an by (rule double_nonneg)
  have "1 * 1 \<le> ?E * U" using E U(1) by (intro mult_mono) simp_all
  then have "x * 1 \<le> x * (?E * U)"
    using assms(2) by (intro mult_left_mono) simp_all
  then have x: "x \<le> x * ?E * U" by (simp add: mult.assoc)
  have px: "0 \<le> ?p + x" using p0 assms(2) by simp
  have "?q \<le> (?p + x) * U"
    unfolding fadd_def assms(4) using px by (rule double_upper)
  also have "\<dots> \<le> (S * ?E * U + x * ?E * U) * U"
    using p x U(2) by (intro mult_right_mono add_mono)
  finally have q: "?q \<le> (S + x) * ?E * U * U"
    by (simp add: algebra_simps)
  have q0: "0 \<le> ?q"
    unfolding fadd_def using px by (rule double_nonneg)
  have d: "0 \<le> ?q / (real n + 1)" using q0 by simp
  have "fdiv ?q (real n + 1) \<le> ?q / (real n + 1) * U"
    unfolding fdiv_def assms(4) using d by (rule double_upper)
  then have "fdiv ?q (real n + 1) * (real n + 1) \<le> ?q / (real n + 1) * U * (real n + 1)"
    by (intro mult_right_mono) simp_all
  also have "\<dots> = ?q * U" by simp
  also have "\<dots> \<le> (S + x) * ?E * U * U * U"
    using q U(2) by (rule mult_right_mono)
  also have "\<dots> = (S + x) * U ^ (3 * Suc n)"
    by (simp add: power_add power3_eq_cube algebra_simps)
  finally show ?thesis .
qed

lemma online_step_lower:
  fixes a S x L :: real
  assumes "0 \<le> S" and "0 \<le> x" and "0 \<le> a" and "L = 1 - 1 / 2 ^ 53"
      and "S * L ^ (3 * n) \<le> a * real n"
  shows "(S + x) * L ^ (3 * Suc n)
           \<le> fdiv (fadd (fmul a (real n)) x) (real n + 1) * (real n + 1)"
    and "0 \<le> fdiv (fadd (fmul a (real n)) x) (real n + 1)"
proof -
  let ?p = "fmul a (real n)"
  let ?q = "fadd ?p x"
  let ?F = "L ^ (3 * n)"
  have L: "0 \<le> L" "L \<le> 1" using assms(4) by simp_all
  have F0: "0 \<le> ?F" using L(1) by simp
  have F1: "?F \<le> 1" using L by (rule power_le_one)
  have an: "0 \<le> a * real n" using assms(3) by simp
  have "S * ?F * L \<le> a * real n * L"
    using assms(5) L(1) by (rule mult_right_mono)
  also have "\<dots> \<le> ?p"
    unfolding fmul_def assms(4) using an by (rule double_lower)
  finally have p: "S * ?F * L \<le> ?p" .
  have p0: "0 \<le> ?p"
    unfolding fmul_def using an by (rule double_nonneg)
  have "?F * L \<le> 1 * 1" using F1 L F0 by (intro mult_mono) simp_all
  then have "x * (?F * L) \<le> x * 1"
    using assms(2) by (intro mult_left_mono) simp_all
  then have x: "x * ?F * L \<le> x" by (simp add: mult.assoc)
  have px: "0 \<le> ?p + x" using p0 assms(2) by simp
  have "(S * ?F * L + x * ?F * L) * L \<le> (?p + x) * L"
    using p x L(1) by (intro mult_right_mono add_mono)
  also have "\<dots> \<le> ?q"
    unfolding fadd_def assms(4) using px by (rule double_lower)
  finally have q: "(S + x) * ?F * L * L \<le> ?q"
    by (simp add: algebra_simps)
  have q0: "0 \<le> ?q"
    unfolding fadd_def using px by (rule double_nonneg)
  have d: "0 \<le> ?q / (real n + 1)" using q0 by simp
  show "0 \<le> fdiv ?q (real n + 1)"
    unfolding fdiv_def using d by (rule double_nonneg)
  have "(S + x) * L ^ (3 * Suc n) = (S + x) * ?F * L * L * L"
    by (simp add: power_add power3_eq_cube algebra_simps)
  also have "\<dots> \<le> ?q * L"
    using q L(1) by (rule mult_right_mono)
  also have "\<dots> = ?q / (real n + 1) * L * (real n + 1)" by simp
  also have "\<dots> \<le> fdiv ?q (real n + 1) * (real n + 1)"
  proof -
    have "?q / (real n + 1) * L \<le> fdiv ?q (real n + 1)"
      unfolding fdiv_def assms(4) using d by (rule double_lower)
    then show ?thesis by (intro mult_right_mono) simp_all
  qed
  finally show "(S + x) * L ^ (3 * Suc n) \<le> fdiv ?q (real n + 1) * (real n + 1)" .
qed

lemma average_bounds:
  fixes S :: real
  assumes "\<forall>em \<in> set ems. msg_text (snd em) \<noteq> None \<and> update_set_fault (fst em) = None"
      and "\<forall>em \<in> set ems. now_start (fst em) \<le> now_processingTime (fst em)"
      and "0 \<le> S" and "0 \<le> averageProcessingTime (stats s)"
      and "S * (1 - 1 / 2 ^ 53) ^ (3 * totalProcessed (stats s))
             \<le> averageProcessingTime (stats s) * real (totalProcessed (stats s))"
      and "averageProcessingTime (stats s) * real (totalProcessed (stats s))
             \<le> S * (1 + 1 / 2 ^ 53) ^ (3 * totalProcessed (stats s))"
  shows "totalProcessed (stats (process_all ems s)) = totalProcessed (stats s) + length ems
       \<and> (S + (\<Sum>em\<leftarrow>ems. of_int (now_processingTime (fst em) - now_start (fst em))))
            * (1 - 1 / 2 ^ 53) ^ (3 * (totalProcessed (stats s) + length ems))
           \<le> averageProcessingTime (stats (process_all ems s))
                * real (totalProcessed (stats s) + length ems)
       \<and> averageProcessingTime (stats (process_all ems s))
                * real (totalProcessed (stats s) + length ems)
           \<le> (S + (\<Sum>em\<leftarrow>ems. of_int (now_processingTime (fst em) - now_start (fst em))))
                * (1 + 1 / 2 ^ 53) ^ (3 * (totalProcessed (stats s) + length ems))"
  using assms
proof (induction ems arbitrary: s S)
  case Nil
  then show ?case by simp
next
  case (Cons em ems)
  obtain e m where em: "em = (e, m)" by (cases em)
  let ?s1 = "snd (processContent e m s)"
  let ?n = "totalProcessed (stats s)"
  let ?x = "real_of_int (now_processingTime e - now_start e)"
  have ok: "msg_text m \<noteq> None" "update_set_fault e = None"
    using Cons.prems(1) by (simp_all add: em)
  have x: "0 \<le> ?x"
    using Cons.prems(2) by (simp add: em)
  have n1: "totalProcessed (stats ?s1) = Suc ?n"
    by (simp add: average_processContent_ok [OF ok])
  have a1: "averageProcessingTime (stats ?s1)
              = fdiv (fadd (fmul (averageProcessingTime (stats s)) (real ?n)) ?x) (real ?n + 1)"
    by (rule average_processContent_ok [OF ok])
  have r1: "real (totalProcessed (stats ?s1)) = real ?n + 1"
    by (simp add: n1)
  have up: "averageProcessingTime (stats ?s1) * real (totalProcessed (stats ?s1))
              \<le> (S + ?x) * (1 + 1 / 2 ^ 53) ^ (3 * totalProcessed (stats ?s1))"
    unfolding r1 unfolding n1 a1
    by (rule online_step_upper [OF Cons.prems(3) x Cons.prems(4) refl Cons.prems(6)])
  have lo: "(S + ?x) * (1 - 1 / 2 ^ 53) ^ (3 * totalProcessed (stats ?s1))
              \<le> averageProcessingTime (stats ?s1) * real (totalProcessed (stats ?s1))"
    unfolding r1 unfolding n1 a1
    by (rule online_step_lower(1) [OF Cons.prems(3) x Cons.prems(4) refl Cons.prems(5)])
  have nn: "0 \<le> averageProcessingTime (stats ?s1)"
    unfolding a1
    by (rule online_step_lower(2) [OF Cons.prems(3) x Cons.prems(4) refl Cons.prems(5)])
  have S: "0 \<le> S + ?x"
    using Cons.prems(3) x by simp
  have rest: "\<forall>em \<in> set ems. msg_text (snd em) \<noteq> None \<and> update_set_fault (fst em) = None"
             "\<forall>em \<in> set ems. now_start (fst em) \<le> now_processingTime (fst em)"
    using Cons.prems(1,2) by simp_all
  have step: "process_all (em # ems) s = process_all ems ?s1"
    by (simp add: em)
  have sum: "S + (\<Sum>em\<leftarrow>em # ems. of_int (now_processingTime (fst em) - now_start (fst em)))
               = S + ?x + (\<Sum>em\<leftarrow>ems. of_int (now_processingTime (fst em) - now_start (fst em)))"
    by (simp add: em)
  have len: "?n + length (em # ems) = totalProcessed (stats ?s1) + length ems"
    by (simp add: n1)
  show ?case
    unfolding step sum len
    by (rule Cons.IH [OF rest S nn lo up])
qed

lemma sum_processing_times:
  "real_of_int (sum_list (processing_times ems))
     = (\<Sum>em\<leftarrow>ems. of_int (now_processingTime (fst em) - now_start (fst em)))"
  by (induction ems) (simp_all add: processing_times_def)

lemma length_processing_times [simp]: "length (processing_times ems) = length ems"
  by (simp add: processing_times_def)

section \<open>Facts about the embedding\<close>

lemma length_add_char [simp]: "length (add_char i embedding jc) = length embedding"
  by (simp add: add_char_def Let_def)

lemma length_foldl_add_char [simp]:
  "length (foldl (add_char i) embedding jcs) = length embedding"
  by (induction jcs arbitrary: embedding) simp_all

lemma length_add_word [simp]: "length (add_word embedding iw) = length embedding"
  by (simp add: add_word_def)

lemma length_foldl_add_word [simp]:
  "length (foldl add_word embedding iws) = length embedding"
  by (induction iws arbitrary: embedding) simp_all

lemma length_accumulate [simp]: "length (accumulate text) = embeddingDimension"
  by (simp add: accumulate_def Let_def)









section \<open>Facts about the keyword extraction\<close>

lemma alnum_not_space: "is_alnum c \<Longrightarrow> \<not> is_space c"
  by (auto simp: is_alnum_def is_space_def Let_def)

lemma space_is_space: "is_space CHR '' ''"
  by (simp add: is_space_def)

lemma nonempty_split_ws_dropWhile:
  "filter (\<lambda>w. w \<noteq> []) (split_ws [] (dropWhile is_space cs))
     = filter (\<lambda>w. w \<noteq> []) (split_ws [] cs)"
  by (cases cs) simp_all

lemma nonempty_split_ws_space:
  assumes "is_space c"
  shows "filter (\<lambda>w. w \<noteq> []) (split_ws acc (c # cs))
           = (if acc = [] then [] else [rev acc]) @ filter (\<lambda>w. w \<noteq> []) (split_ws [] cs)"
  using assms by (simp add: nonempty_split_ws_dropWhile)

lemma nonempty_split_ws_runs:
  "filter (\<lambda>w. w \<noteq> [])
     (split_ws acc (map (\<lambda>c. if is_alnum c \<or> is_space c then c else CHR '' '') s))
   = alnum_runs acc s"
proof (induction s arbitrary: acc)
  case Nil
  then show ?case by simp
next
  case (Cons c cs)
  show ?case
  proof (cases "is_alnum c")
    case True
    then show ?thesis
      using Cons.IH [of "c # acc"] alnum_not_space [of c] by simp
  next
    case False
    then have "is_space (if is_alnum c \<or> is_space c then c else CHR '' '')"
      by (simp add: space_is_space)
    then show ?thesis
      using False Cons.IH [of "[]"]
      by (simp only: list.map nonempty_split_ws_space alnum_runs.simps if_False)
  qed
qed

lemma keyword_tokens_runs:
  "keyword_tokens text = filter (\<lambda>w. length w > 3) (alnum_runs [] (toLowerCase text))"
proof -
  have "filter (\<lambda>w. length w > 3) xs = filter (\<lambda>w. length w > 3) (filter (\<lambda>w. w \<noteq> []) xs)"
    for xs :: "string list"
    by (induction xs) auto
  then show ?thesis
    unfolding keyword_tokens_def nonempty_split_ws_runs [symmetric] by blast
qed

lemma bump_counts:
  assumes "w \<noteq> ''constructor''" and "distinct ks" and "w \<notin> set ks \<Longrightarrow> c w = 0"
  shows "bump (map (\<lambda>k. (k, Count (c k))) ks) w
           = map (\<lambda>k. (k, Count ((c(w := c w + 1)) k))) (if w \<in> set ks then ks else ks @ [w])"
  using assms(2,3)
proof (induction ks)
  case Nil
  then show ?case using assms(1) by simp
next
  case (Cons k ks)
  show ?case
  proof (cases "k = w")
    case True
    then have "w \<notin> set ks" using Cons.prems(1) by simp
    then have "map (\<lambda>k. (k, Count (c k))) ks = map (\<lambda>k. (k, Count ((c(w := c w + 1)) k))) ks"
      by (intro map_cong) auto
    then show ?thesis using True by simp
  next
    case False
    have "distinct ks" using Cons.prems(1) by simp
    moreover have "w \<notin> set ks \<Longrightarrow> c w = 0" using Cons.prems(2) False by simp
    ultimately have "bump (map (\<lambda>k. (k, Count (c k))) ks) w
           = map (\<lambda>k. (k, Count ((c(w := c w + 1)) k))) (if w \<in> set ks then ks else ks @ [w])"
      by (rule Cons.IH)
    then show ?thesis using False by simp
  qed
qed

lemma count_words_snoc: "count_words (ws @ [w]) = bump (count_words ws) w"
  by (simp add: count_words_def)

lemma count_words_eq:
  assumes "''constructor'' \<notin> set ws"
  shows "count_words ws = map (\<lambda>k. (k, Count (count_list ws k))) (rev (remdups (rev ws)))"
  using assms
proof (induction ws rule: rev_induct)
  case Nil
  then show ?case by (simp add: count_words_def)
next
  case (snoc w ws)
  let ?ks = "rev (remdups (rev ws))"
  have w: "w \<noteq> ''constructor''" and rest: "''constructor'' \<notin> set ws"
    using snoc.prems by auto
  have zero: "w \<notin> set ?ks \<Longrightarrow> count_list ws w = 0"
    by (simp add: count_list_0_iff)
  have counts: "(count_list ws)(w := count_list ws w + 1) = count_list (ws @ [w])"
    by (rule ext) simp
  have keys: "(if w \<in> set ?ks then ?ks else ?ks @ [w]) = rev (remdups (rev (ws @ [w])))"
    by simp
  have "count_words (ws @ [w]) = bump (map (\<lambda>k. (k, Count (count_list ws k))) ?ks) w"
    by (simp only: count_words_snoc snoc.IH [OF rest])
  also have "\<dots> = map (\<lambda>k. (k, Count (((count_list ws)(w := count_list ws w + 1)) k)))
                     (if w \<in> set ?ks then ?ks else ?ks @ [w])"
    using w zero by (intro bump_counts [where c = "count_list ws" and ks = "?ks" and w = w]) simp_all
  finally show ?case
    by (simp only: counts keys)
qed

lemma insort_key_map:
  "insort_key f (g x) (map g xs) = map g (insort_key (\<lambda>x. f (g x)) x xs)"
  by (induction xs) simp_all

lemma sort_key_map_entries:
  "sort_key f (map g xs) = map g (sort_key (\<lambda>x. f (g x)) xs)"
  by (induction xs) (simp_all add: insort_key_map)

lemma insert_by_counts:
  "insert_by by_count_desc (x, Count (c x)) (map (\<lambda>k. (k, Count (c k))) xs)
     = map (\<lambda>k. (k, Count (c k))) (insort_key (\<lambda>k. - int (c k)) x xs)"
  by (induction xs) simp_all

lemma sort_by_counts:
  "sort_by by_count_desc (map (\<lambda>k. (k, Count (c k))) xs)
     = map (\<lambda>k. (k, Count (c k))) (sort_key (\<lambda>k. - int (c k)) xs)"
  by (induction xs) (simp_all add: sort_by_def insert_by_counts)

lemma object_entries_counts:
  "object_entries (map (\<lambda>k. (k, Count (c k))) ks)
     = map (\<lambda>k. (k, Count (c k)))
         (sort_key digits_value (filter is_array_index ks)
          @ filter (\<lambda>k. \<not> is_array_index k) ks)"
  by (simp add: object_entries_def filter_map comp_def sort_key_map_entries)

lemma consistent_number_counts:
  "consistent_counts (map (\<lambda>k. (k, Count (c k))) ks)"
  by (simp add: consistent_counts_def list_all_iff)

lemma enumeration_order_entries:
  assumes "''constructor'' \<notin> set ws"
  shows "object_entries (count_words ws)
           = map (\<lambda>k. (k, Count (count_list ws k))) (enumeration_order ws)"
  unfolding count_words_eq [OF assms] object_entries_counts enumeration_order_def ..

lemma extractKeywords_ranking:
  assumes "''constructor'' \<notin> set (keyword_tokens text)"
  shows "extractKeywords text = Some (take 5 (ranking (keyword_tokens text)))"
  unfolding extractKeywords_def Let_def enumeration_order_entries [OF assms] sort_by_counts
    ranking_def
  by (simp add: consistent_number_counts take_map [symmetric] comp_def)

lemma insort_key_stable_sorted:
  fixes f :: "'a \<Rightarrow> int"
  assumes "sorted_wrt (\<lambda>a b. f a < f b \<or> (f a = f b \<and> R a b)) ys"
      and "\<forall>y \<in> set ys. R x y"
  shows "sorted_wrt (\<lambda>a b. f a < f b \<or> (f a = f b \<and> R a b)) (insort_key f x ys)"
  using assms
proof (induction ys)
  case Nil
  then show ?case by simp
next
  case (Cons y ys)
  show ?case
  proof (cases "f x \<le> f y")
    case True
    have "f x < f z \<or> (f x = f z \<and> R x z)" if "z \<in> set (y # ys)" for z
    proof -
      have "f y \<le> f z" using that Cons.prems(1) by auto
      moreover have "R x z" using that Cons.prems(2) by auto
      ultimately show ?thesis using True by auto
    qed
    then show ?thesis using True Cons.prems(1) by simp
  next
    case False
    have tail: "sorted_wrt (\<lambda>a b. f a < f b \<or> (f a = f b \<and> R a b)) (insort_key f x ys)"
      using Cons.IH Cons.prems by simp
    have "f y < f z \<or> (f y = f z \<and> R y z)" if "z \<in> set (insort_key f x ys)" for z
      using that False Cons.prems(1) by (auto simp: set_insort_key)
    then show ?thesis using False tail by simp
  qed
qed

lemma sort_key_stable_sorted:
  fixes f :: "'a \<Rightarrow> int"
  assumes "sorted_wrt R xs"
  shows "sorted_wrt (\<lambda>a b. f a < f b \<or> (f a = f b \<and> R a b)) (sort_key f xs)"
  using assms
proof (induction xs)
  case Nil
  then show ?case by simp
next
  case (Cons x xs)
  have "sorted_wrt (\<lambda>a b. f a < f b \<or> (f a = f b \<and> R a b)) (sort_key f xs)"
    using Cons by simp
  moreover have "\<forall>y \<in> set (sort_key f xs). R x y"
    using Cons.prems by simp
  ultimately show ?case
    by (simp add: insort_key_stable_sorted)
qed

lemma first_seen_snoc_old: "a \<in> set ws \<Longrightarrow> first_seen (ws @ [w]) a = first_seen ws a"
  by (simp add: first_seen_def)

lemma first_seen_snoc_new: "w \<notin> set ws \<Longrightarrow> first_seen (ws @ [w]) w = length ws"
proof -
  assume "w \<notin> set ws"
  then have "takeWhile (\<lambda>x. x \<noteq> w) (ws @ [w]) = ws @ takeWhile (\<lambda>x. x \<noteq> w) [w]"
    by (intro takeWhile_append2) auto
  then show ?thesis by (simp add: first_seen_def)
qed

lemma first_seen_less: "a \<in> set ws \<Longrightarrow> first_seen ws a < length ws"
proof -
  assume "a \<in> set ws"
  then have "takeWhile (\<lambda>x. x \<noteq> a) ws \<noteq> ws" by auto
  then have "length (takeWhile (\<lambda>x. x \<noteq> a) ws) \<noteq> length ws"
    by (metis takeWhile_eq_take take_all_iff order_refl)
  then show ?thesis
    using length_takeWhile_le [of "\<lambda>x. x \<noteq> a" ws] by (simp add: first_seen_def)
qed

lemma first_keys_sorted:
  "sorted_wrt (\<lambda>a b. first_seen ws a < first_seen ws b) (rev (remdups (rev ws)))"
proof (induction ws rule: rev_induct)
  case Nil
  then show ?case by simp
next
  case (snoc w ws)
  let ?ks = "rev (remdups (rev ws))"
  have old: "sorted_wrt (\<lambda>a b. first_seen (ws @ [w]) a < first_seen (ws @ [w]) b) ?ks"
    using snoc.IH
    by (rule sorted_wrt_mono_rel [rotated]) (simp add: first_seen_snoc_old)
  show ?case
  proof (cases "w \<in> set ws")
    case True
    then show ?thesis using old by simp
  next
    case False
    have "first_seen (ws @ [w]) a < first_seen (ws @ [w]) w" if "a \<in> set ws" for a
      using that False by (simp add: first_seen_snoc_old first_seen_snoc_new first_seen_less)
    then show ?thesis
      using old False by (simp add: sorted_wrt_append)
  qed
qed

lemma enumeration_order_sorted:
  "sorted_wrt (enumerated_before ws) (enumeration_order ws)"
proof -
  let ?ks = "rev (remdups (rev ws))"
  let ?A = "sort_key digits_value (filter is_array_index ?ks)"
  let ?B = "filter (\<lambda>k. \<not> is_array_index k) ?ks"
  have "sorted (map digits_value ?A)"
    by (rule sorted_sort_key)
  then have "sorted_wrt (\<lambda>a b. digits_value a \<le> digits_value b) ?A"
    by (simp add: sorted_wrt_map)
  then have A: "sorted_wrt (enumerated_before ws) ?A"
    by (rule sorted_wrt_mono_rel [rotated]) (auto simp: enumerated_before_def)
  have "sorted_wrt (\<lambda>a b. first_seen ws a < first_seen ws b) ?B"
    by (rule sorted_wrt_filter) (rule first_keys_sorted)
  then have B: "sorted_wrt (enumerated_before ws) ?B"
    by (rule sorted_wrt_mono_rel [rotated]) (auto simp: enumerated_before_def)
  have "\<forall>a \<in> set ?A. \<forall>b \<in> set ?B. enumerated_before ws a b"
    by (auto simp: enumerated_before_def)
  then show ?thesis
    unfolding enumeration_order_def using A B by (simp add: sorted_wrt_append)
qed

lemma set_enumeration_order [simp]: "set (enumeration_order ws) = set ws"
  by (auto simp: enumeration_order_def)

lemma distinct_enumeration_order [simp]: "distinct (enumeration_order ws)"
  by (auto simp: enumeration_order_def distinct_filter)

lemma set_ranking [simp]: "set (ranking ws) = set ws"
  by (simp add: ranking_def)

lemma distinct_ranking [simp]: "distinct (ranking ws)"
  by (simp add: ranking_def)

lemma length_ranking: "length (ranking ws) = card (set ws)"
proof -
  have "length (ranking ws) = card (set (ranking ws))"
    by (simp only: distinct_card [OF distinct_ranking])
  then show ?thesis by simp
qed

text \<open>The ranking is sorted: a token stands before the tokens that are less frequent, and
  before the tokens of the same frequency that the counter enumerates later.\<close>

lemma ranking_sorted:
  "sorted_wrt
     (\<lambda>a b. count_list ws b < count_list ws a
           \<or> (count_list ws a = count_list ws b \<and> enumerated_before ws a b))
     (ranking ws)"
proof -
  have "sorted_wrt
          (\<lambda>a b. - int (count_list ws a) < - int (count_list ws b)
                \<or> (- int (count_list ws a) = - int (count_list ws b)
                   \<and> enumerated_before ws a b))
          (ranking ws)"
    unfolding ranking_def
    by (rule sort_key_stable_sorted) (rule enumeration_order_sorted)
  then show ?thesis
    by (rule sorted_wrt_mono_rel [rotated]) auto
qed

section \<open>The claims\<close>

text \<open>
  C1. For the text \<open>I hate this stupid thing, complete waste of money!\<close> and any category
  hint, \<^const>\<open>analyzeContent\<close> returns a result with \<open>toxicityScore = 0.6\<close> (the double
  that the literal denotes, which is within \<open>10^-16\<close> of six tenths) and \<open>isToxic = true\<close>,
  and a processing step whose terminal write is served processes the item and stores the
  status \<open>flagged\<close>.
\<close>

theorem C1_scenario_B:
  assumes "msg_text m = Some ''I hate this stupid thing, complete waste of money!''"
      and "update_set_fault e = None"
  shows "\<exists>a. analyzeContent (Some ''I hate this stupid thing, complete waste of money!'') hint
               = Inr a
           \<and> toxicityScore a = double (6 / 10)
           \<and> \<bar>toxicityScore a - 6 / 10\<bar> < 1 / 10 ^ 16
           \<and> isToxic a
           \<and> fst (processContent e m s) = Processed
           \<and> stored_field (msg_contentId m) ''status'' (snd (processContent e m s))
               = Some (JStr ''flagged'')"
proof -
  let ?t = "''I hate this stupid thing, complete waste of money!''"
  have tox: "toxicityScore (analyzeContent_try ?t hint) = double (6 / 10)"
    unfolding analyzeContent_scores scenario_B_toxicity
    by (simp add: round2_toxic_2 double_3_5)
  have near: "\<bar>toxicityScore (analyzeContent_try ?t hint) - 6 / 10\<bar> < 1 / 10 ^ 16"
    unfolding analyzeContent_scores scenario_B_toxicity
    by (simp add: round2_toxic_2)
  have flag: "isToxic (analyzeContent_try ?t hint)" for hint
    unfolding analyzeContent_scores scenario_B_toxicity
    by (simp add: double_1_2)
  have "stored_field (msg_contentId m) ''status'' (snd (processContent e m s))
          = Some (JStr ''flagged'')"
    using flag [of "msg_category m"]
    by (simp add: stored_field_processContent_ok [OF assms])
  moreover have "fst (processContent e m s) = Processed"
    using assms by (simp add: outcome_processContent)
  ultimately show ?thesis
    using tox near flag [of hint] by (simp add: analyzeContent_string)
qed

theorem C1_scenario_B_witness:
  "stored_field ''c1'' ''status''
     (snd (processContent no_faults
        (message_of ''c1'' ''I hate this stupid thing, complete waste of money!'') fresh_state))
   = Some (JStr ''flagged'')"
  using C1_scenario_B [of "message_of ''c1'' ''I hate this stupid thing, complete waste of money!''"
      no_faults None fresh_state]
  by (auto simp add: no_faults_def message_of_def)

text \<open>
  C2. The scoring block of \<^const>\<open>analyzeContent\<close> fails on a message that has no \<open>text\<close>
  field (the stream route appends such a message): \<^verbatim>\<open>text.toLowerCase()\<close> throws. The
  \<^verbatim>\<open>catch\<close> block then evaluates \<^verbatim>\<open>text.split(' ')\<close> for the word count of the neutral
  result, which throws again: \<^const>\<open>analyzeContent\<close> returns no result, it rejects. The
  rejection reaches the \<^verbatim>\<open>catch\<close> block of \<^const>\<open>processContent\<close>: with every Redis call
  served the step fails, the stored record is the error record (status \<open>error\<close>, no
  analysis), and the counters are as before.
\<close>

theorem C2_missing_text_rejects:
  "analyzeContent (msg_text message_without_text) (msg_category message_without_text)
     = Inl ''Cannot read properties of undefined (reading 'split')''
   \<and> processContent no_faults message_without_text fresh_state
     = (Failed ''Cannot read properties of undefined (reading 'split')'',
        fresh_state\<lparr>json_docs := (json_docs fresh_state)(''content:c1'' \<mapsto>
          [(''status'', JStr ''error''),
           (''error'', JStr ''Cannot read properties of undefined (reading 'split')''),
           (''processedAt'', JNum 1005),
           (''processingTime'', JNum 6)])\<rparr>)
   \<and> stored_field ''c1'' ''status''
       (snd (processContent no_faults message_without_text fresh_state))
     = Some (JStr ''error'')
   \<and> stored_field ''c1'' ''analysis''
       (snd (processContent no_faults message_without_text fresh_state))
     = None
   \<and> stats (snd (processContent no_faults message_without_text fresh_state))
     = stats fresh_state"
proof -
  have none: "msg_text message_without_text = None"
    by (simp add: message_without_text_def)
  have step: "processContent no_faults message_without_text fresh_state
     = (Failed ''Cannot read properties of undefined (reading 'split')'',
        fresh_state\<lparr>json_docs := (json_docs fresh_state)(''content:c1'' \<mapsto>
          [(''status'', JStr ''error''),
           (''error'', JStr ''Cannot read properties of undefined (reading 'split')''),
           (''processedAt'', JNum 1005),
           (''processingTime'', JNum 6)])\<rparr>)"
    unfolding processContent_missing_text [OF none]
    by (simp add: processContent_catch_def setJSON_def no_faults_def message_without_text_def)
  have "stored_field ''c1'' ''status''
          (snd (processContent no_faults message_without_text fresh_state))
        = Some (JStr ''error'')"
    and "stored_field ''c1'' ''analysis''
          (snd (processContent no_faults message_without_text fresh_state))
        = None"
    unfolding step by (simp_all add: stored_field_def getJSON_def)
  then show ?thesis
    using step by (simp add: none analyzeContent_missing_text)
qed

text \<open>
  C3. The item \<open>c1\<close> with the text \<open>hello world\<close> is submitted and then processed, every
  Redis call being served. After the submission the stored record holds the fields written at
  creation. The terminal update writes the update object at the root path of the same key:
  after it the record holds the four fields of the update and none of \<open>id\<close>, \<open>text\<close>,
  \<open>category\<close>, \<open>userId\<close>, \<open>timestamp\<close>, \<open>source\<close>.
\<close>

theorem C3_terminal_update_replaces_record:
  "stored_field ''c1'' ''text''
     (snd (submitContent ''c1'' 999 ''999-0'' None None False
        \<lparr> cd_text = ''hello world'', cd_category = None, cd_userId = None, cd_source = None \<rparr>
        fresh_state)) = Some (JStr ''hello world'')
   \<and> map (\<lambda>field. stored_field ''c1'' field
        (snd (processContent no_faults (message_of ''c1'' ''hello world'')
          (snd (submitContent ''c1'' 999 ''999-0'' None None False
             \<lparr> cd_text = ''hello world'', cd_category = None, cd_userId = None, cd_source = None \<rparr>
             fresh_state)))))
       [''id'', ''text'', ''category'', ''userId'', ''timestamp'', ''source'', ''status'']
     = [None, None, None, None, None, None, Some (JStr ''approved'')]"
proof -
  have none: "update_set_fault no_faults = None"
    by (simp add: no_faults_def)
  have id: "msg_contentId (message_of ''c1'' ''hello world'') = ''c1''"
    and body: "msg_text (message_of ''c1'' ''hello world'') = Some ''hello world''"
    by (simp_all add: message_of_def)
  have "length (filter (str_includes (toLowerCase ''hello world'')) toxicWords) = 0"
    by code_simp
  then have "keyword_score (double (3 / 10)) toxicWords (toLowerCase ''hello world'') = 0"
    by (simp only: keyword_score_count funpow_0)
  then have ok: "\<not> isToxic (analyzeContent_try ''hello world'' (Some ''general''))"
    unfolding analyzeContent_scores by (simp add: double_1_2)
  have before: "stored_field ''c1'' ''text''
     (snd (submitContent ''c1'' 999 ''999-0'' None None False
        \<lparr> cd_text = ''hello world'', cd_category = None, cd_userId = None, cd_source = None \<rparr>
        fresh_state)) = Some (JStr ''hello world'')"
    by (simp add: submitContent_def addToStream_def setJSON_def addToHyperLogLog_def
          stored_field_def getJSON_def fresh_state_def Let_def)
  have after: "stored_field ''c1'' field
        (snd (processContent no_faults (message_of ''c1'' ''hello world'') s))
      = map_of [(''analysis'', JAnalysis (analyzeContent_try ''hello world'' (Some ''general''))),
                (''status'', JStr ''approved''),
                (''processedAt'', JNum 1002),
                (''processingTime'', JNum 3)] field" for field s
    using stored_field_processContent_ok [OF body none, of field s] ok
    by (simp add: id) (simp add: message_of_def no_faults_def)
  show ?thesis
    using before by (simp add: after)
qed

text \<open>
  C4, as the code has it. The confidence is computed in double arithmetic as
  \<^verbatim>\<open>Math.min(0.5 + (len / 200) * 0.3 + (toxicityScore > 0 ? 0.2 : 0) + (positiveScore > 0 ? 0.1 : 0), 0.95)\<close>,
  every operation rounding to the nearest double, and then rounded to two decimals by
  \<^verbatim>\<open>Math.round(x * 100) / 100\<close>. The flags can be read from the scores of the result. The
  length term has no cap of its own, only the sum is capped at 0.95: a text of 300
  characters or more has confidence 0.95 whatever its keywords. For a text of at most 200
  characters the confidence is the value of the formula of the specification, evaluated
  exactly, up to one hundredth (and the rounding of the last division): the rounding of the
  doubles can move the sum across a rounding boundary of \<^verbatim>\<open>Math.round\<close>.
\<close>

theorem C4_confidence:
  "\<exists>a. analyzeContent (Some text) hint = Inr a
     \<and> confidence a
         = round2 (min (fadd (fadd (fadd (double (5 / 10))
                                      (fmul (fdiv (real (length text)) 200) (double (3 / 10))))
                                (if toxicityScore a > 0 then double (2 / 10) else 0))
                          (if positiveScore a > 0 then double (1 / 10) else 0))
                     (double (95 / 100)))
     \<and> (300 \<le> length text \<longrightarrow> confidence a = double (95 / 100))
     \<and> (length text \<le> 200 \<longrightarrow>
          \<bar>confidence a - spec_confidence text (toxicityScore a) (positiveScore a)\<bar>
            \<le> 1 / 100 + 1 / 2 ^ 53)"
proof -
  have formula: "confidence (analyzeContent_try text hint)
         = round2 (min (fadd (fadd (fadd (double (5 / 10))
                                      (fmul (fdiv (real (length text)) 200) (double (3 / 10))))
                                (if toxicityScore (analyzeContent_try text hint) > 0
                                 then double (2 / 10) else 0))
                          (if positiveScore (analyzeContent_try text hint) > 0
                           then double (1 / 10) else 0))
                     (double (95 / 100)))"
    unfolding analyzeContent_flags by (rule analyzeContent_confidence)
  have long: "300 \<le> length text \<longrightarrow>
      confidence (analyzeContent_try text hint) = double (95 / 100)"
    using confidence_of_long_text by blast
  have short: "length text \<le> 200 \<longrightarrow>
      \<bar>confidence (analyzeContent_try text hint)
         - spec_confidence text (toxicityScore (analyzeContent_try text hint))
             (positiveScore (analyzeContent_try text hint))\<bar>
        \<le> 1 / 100 + 1 / 2 ^ 53"
    using confidence_near_spec by blast
  show ?thesis
    by (intro exI [of _ "analyzeContent_try text hint"] conjI analyzeContent_string formula long
          short)
qed

theorem C4_confidence_witness:
  "(\<exists>a. analyzeContent (Some (replicate 300 CHR ''x'')) None = Inr a
      \<and> confidence a = double (95 / 100))
   \<and> (\<exists>a. analyzeContent (Some ''hello'') None = Inr a
      \<and> \<bar>confidence a - spec_confidence ''hello'' (toxicityScore a) (positiveScore a)\<bar>
            \<le> 1 / 100 + 1 / 2 ^ 53)"
  using C4_confidence [of "replicate 300 CHR ''x''" None] C4_confidence [of "''hello''" None]
  by auto

text \<open>
  C4, as it is stated (the length contribution is capped at 0.3, the formula evaluated
  exactly), fails. On a text of 400 letters \<open>x\<close>, which holds no keyword, the code returns
  0.95 and the stated formula gives 0.8. On a text of 50 letters \<open>x\<close> the sum of the doubles
  is just below 0.575: the code returns 0.57 and the stated formula gives 0.58.
\<close>

theorem C4_length_cap_counterexample:
  "confidence (analyzeContent_try (replicate 400 CHR ''x'') None) = double (95 / 100)
   \<and> spec_confidence (replicate 400 CHR ''x'')
       (toxicityScore (analyzeContent_try (replicate 400 CHR ''x'') None))
       (positiveScore (analyzeContent_try (replicate 400 CHR ''x'') None)) = 80 / 100
   \<and> double (95 / 100) \<noteq> 80 / 100
   \<and> confidence (analyzeContent_try (replicate 50 CHR ''x'') None) = double (57 / 100)
   \<and> spec_confidence (replicate 50 CHR ''x'')
       (toxicityScore (analyzeContent_try (replicate 50 CHR ''x'') None))
       (positiveScore (analyzeContent_try (replicate 50 CHR ''x'') None)) = 58 / 100
   \<and> double (57 / 100) \<noteq> 58 / 100
   \<and> analyzeContent (Some (replicate 400 CHR ''x'')) None
       = Inr (analyzeContent_try (replicate 400 CHR ''x'') None)
   \<and> analyzeContent (Some (replicate 50 CHR ''x'')) None
       = Inr (analyzeContent_try (replicate 50 CHR ''x'') None)"
proof -
  have a: "confidence (analyzeContent_try (replicate 400 CHR ''x'') None) = double (95 / 100)"
    unfolding analyzeContent_confidence run_x_scores
    by (simp add: double_1_2 double_3_10 double_19_20 conf_400_ratio conf_400_length
          conf_400_base conf_400_toxic_0 round2_cap)
  have b: "spec_confidence (replicate 400 CHR ''x'')
       (toxicityScore (analyzeContent_try (replicate 400 CHR ''x'') None))
       (positiveScore (analyzeContent_try (replicate 400 CHR ''x'') None)) = 80 / 100"
    unfolding analyzeContent_scores run_x_scores
    by (simp add: spec_confidence_def round2_zero)
  have c: "confidence (analyzeContent_try (replicate 50 CHR ''x'') None) = double (57 / 100)"
    unfolding analyzeContent_confidence run_x_scores
    by (simp add: double_1_2 double_3_10 double_19_20 double_57_100 conf_50_ratio
          conf_50_length conf_50_base conf_50_toxic_0 round2_conf_50_00)
  have d: "spec_confidence (replicate 50 CHR ''x'')
       (toxicityScore (analyzeContent_try (replicate 50 CHR ''x'') None))
       (positiveScore (analyzeContent_try (replicate 50 CHR ''x'') None)) = 58 / 100"
    unfolding analyzeContent_scores run_x_scores
    by (simp add: spec_confidence_def round2_zero)
  have e: "double (95 / 100) \<noteq> 80 / 100" "double (57 / 100) \<noteq> 58 / 100"
    by (simp_all add: double_19_20 double_57_100)
  show ?thesis
    using a b c d e by (simp add: analyzeContent_string)
qed

text \<open>
  C5. Two items with the same text are processed one after the other, starting from a
  duplicate filter that does not hold the hash of the text. When both are processed and
  published and the set commands of the filter are served (the first add, the second
  membership check), the event of the first item has \<open>isDuplicate = false\<close> and the event of
  the second has \<open>isDuplicate = true\<close>. A served membership check after a served add of the
  same hash reports the hash present.
\<close>

theorem C5_duplicate_flag:
  assumes "msg_text m1 = Some t" and "msg_text m2 = Some t"
      and "hashContent t \<notin> redis_sets s ''bloom:content_hashes''"
      and "update_set_fault e1 = None" and "update_set_fault e2 = None"
      and "\<not> publish_fault e1" and "\<not> publish_fault e2"
      and "\<not> sadd_fault e1" and "\<not> sismember_fault e2"
  shows "map (\<lambda>ce. ev_isDuplicate (snd ce))
           (drop (length (published s))
              (published (snd (processContent e2 m2 (snd (processContent e1 m1 s))))))
         = [False, True]
       \<and> checkBloomFilter False key h (snd (addToBloomFilter False key h s0))"
proof -
  let ?s1 = "snd (processContent e1 m1 s)"
  have first: "\<not> checkBloomFilter (sismember_fault e1) ''content_hashes'' (hashContent t) s"
    using assms(3) by (simp add: checkBloomFilter_def)
  have sets1: "hashContent t \<in> redis_sets ?s1 ''bloom:content_hashes''"
    using first assms(8) by (simp add: redis_sets_processContent_ok [OF assms(1,4)])
  have second: "checkBloomFilter (sismember_fault e2) ''content_hashes'' (hashContent t) ?s1"
    using sets1 assms(9) by (simp add: checkBloomFilter_def)
  have "checkBloomFilter False key h (snd (addToBloomFilter False key h s0))"
    by (simp add: checkBloomFilter_def addToBloomFilter_def)
  then show ?thesis
    using first second assms(6,7)
    by (simp add: published_processContent_ok [OF assms(2,5)]
          published_processContent_ok [OF assms(1,4)])
qed

theorem C5_duplicate_flag_witness:
  "map (\<lambda>ce. ev_isDuplicate (snd ce))
     (published (snd (processContent no_faults (message_of ''c2'' ''same text'')
        (snd (processContent no_faults (message_of ''c1'' ''same text'') fresh_state)))))
   = [False, True]"
  using C5_duplicate_flag [of "message_of ''c1'' ''same text''" "''same text''"
      "message_of ''c2'' ''same text''" fresh_state no_faults no_faults]
  by (simp add: fresh_state_def no_faults_def message_of_def)

text \<open>
  C6, as the code has it. When every message of a sequence is processed (none fails) and no
  processing time is negative, then after each prefix of length \<open>k\<close>, \<open>1 \<le> k \<le> n\<close>, starting
  from the constructor's counters, \<open>totalProcessed\<close> is \<open>k\<close> and \<open>averageProcessingTime\<close> is
  the arithmetic mean of the \<open>k\<close> processing times up to the rounding of the \<open>3k\<close> double
  operations that produced it: it lies between the mean times \<open>(1 - 2^-53)^(3k)\<close> and the
  mean times \<open>(1 + 2^-53)^(3k)\<close>. The next processed message updates it by
  \<^verbatim>\<open>(avg * k + x) / (k + 1)\<close> in double arithmetic, from the stored average and count alone.
\<close>

theorem C6_running_average:
  assumes "stats s = initial_stats"
      and "\<forall>em \<in> set ems. msg_text (snd em) \<noteq> None \<and> update_set_fault (fst em) = None"
      and "\<forall>em \<in> set ems. now_start (fst em) \<le> now_processingTime (fst em)"
      and "1 \<le> k" and "k \<le> length ems"
  shows "totalProcessed (stats (process_all (take k ems) s)) = k
       \<and> arithmetic_mean (processing_times (take k ems)) * (1 - 1 / 2 ^ 53) ^ (3 * k)
         \<le> averageProcessingTime (stats (process_all (take k ems) s))
       \<and> averageProcessingTime (stats (process_all (take k ems) s))
         \<le> arithmetic_mean (processing_times (take k ems)) * (1 + 1 / 2 ^ 53) ^ (3 * k)
       \<and> (k < length ems \<longrightarrow>
            averageProcessingTime (stats (process_all (take (Suc k) ems) s))
              = fdiv (fadd (fmul (averageProcessingTime (stats (process_all (take k ems) s)))
                                 (real k))
                           (of_int (now_processingTime (fst (ems ! k)) - now_start (fst (ems ! k)))))
                     (real k + 1))"
proof -
  let ?sum = "\<Sum>em\<leftarrow>take k ems. real_of_int (now_processingTime (fst em) - now_start (fst em))"
  let ?avg = "averageProcessingTime (stats (process_all (take k ems) s))"
  have ok: "\<forall>em \<in> set (take k ems). msg_text (snd em) \<noteq> None \<and> update_set_fault (fst em) = None"
    using assms(2) by (meson in_set_takeD)
  have nonneg: "\<forall>em \<in> set (take k ems). now_start (fst em) \<le> now_processingTime (fst em)"
    using assms(3) by (meson in_set_takeD)
  have len: "length (take k ems) = k"
    using assms(5) by simp
  have mean: "arithmetic_mean (processing_times (take k ems)) = ?sum / real k"
    unfolding arithmetic_mean_def sum_processing_times length_processing_times len ..
  have zero: "totalProcessed (stats s) = 0" "averageProcessingTime (stats s) = 0"
    by (simp_all add: assms(1) initial_stats_def)
  have "totalProcessed (stats (process_all (take k ems) s)) = totalProcessed (stats s) + length (take k ems)
       \<and> (0 + ?sum) * (1 - 1 / 2 ^ 53) ^ (3 * (totalProcessed (stats s) + length (take k ems)))
           \<le> ?avg * real (totalProcessed (stats s) + length (take k ems))
       \<and> ?avg * real (totalProcessed (stats s) + length (take k ems))
           \<le> (0 + ?sum) * (1 + 1 / 2 ^ 53) ^ (3 * (totalProcessed (stats s) + length (take k ems)))"
    by (rule average_bounds [OF ok nonneg]) (simp_all add: zero)
  then have n: "totalProcessed (stats (process_all (take k ems) s)) = k"
    and lo: "?sum * (1 - 1 / 2 ^ 53) ^ (3 * k) \<le> ?avg * real k"
    and up: "?avg * real k \<le> ?sum * (1 + 1 / 2 ^ 53) ^ (3 * k)"
    unfolding zero len by simp_all
  have k: "0 < real k"
    using assms(4) by simp
  have lower: "?sum / real k * (1 - 1 / 2 ^ 53) ^ (3 * k) \<le> ?avg"
  proof -
    have "?sum / real k * (1 - 1 / 2 ^ 53) ^ (3 * k)
            = ?sum * (1 - 1 / 2 ^ 53) ^ (3 * k) / real k"
      by simp
    also have "\<dots> \<le> ?avg * real k / real k"
      using lo k by (intro divide_right_mono) simp_all
    also have "\<dots> = ?avg"
      using k by simp
    finally show ?thesis .
  qed
  have upper: "?avg \<le> ?sum / real k * (1 + 1 / 2 ^ 53) ^ (3 * k)"
  proof -
    have "?avg = ?avg * real k / real k"
      using k by simp
    also have "\<dots> \<le> ?sum * (1 + 1 / 2 ^ 53) ^ (3 * k) / real k"
      using up k by (intro divide_right_mono) simp_all
    also have "\<dots> = ?sum / real k * (1 + 1 / 2 ^ 53) ^ (3 * k)"
      by simp
    finally show ?thesis .
  qed
  have next_one: "averageProcessingTime (stats (process_all (take (Suc k) ems) s))
              = fdiv (fadd (fmul ?avg (real k))
                           (of_int (now_processingTime (fst (ems ! k)) - now_start (fst (ems ! k)))))
                     (real k + 1)"
    if less: "k < length ems"
  proof -
    obtain e m where em: "ems ! k = (e, m)" by (cases "ems ! k")
    have "(e, m) \<in> set ems"
      using less em by (metis nth_mem)
    then have this_ok: "msg_text m \<noteq> None" "update_set_fault e = None"
      using assms(2) by auto
    have "take (Suc k) ems = take k ems @ [(e, m)]"
      using less em by (simp add: take_Suc_conv_app_nth)
    then have "process_all (take (Suc k) ems) s
                 = snd (processContent e m (process_all (take k ems) s))"
      by (simp add: process_all_append)
    then show ?thesis
      by (simp add: average_processContent_ok(2) [OF this_ok] n em)
  qed
  show ?thesis
    unfolding mean using n lower upper next_one by blast
qed

theorem C6_running_average_witness:
  "arithmetic_mean (processing_times (take 2
      [(no_faults\<lparr>now_processingTime := 1003\<rparr>, message_of ''c1'' ''first''),
       (no_faults\<lparr>now_processingTime := 1008\<rparr>, message_of ''c2'' ''second''),
       (no_faults\<lparr>now_processingTime := 1001\<rparr>, message_of ''c3'' ''third'')])) = 11 / 2
   \<and> 11 / 2 * (1 - 1 / 2 ^ 53) ^ 6
     \<le> averageProcessingTime (stats (process_all (take 2
          [(no_faults\<lparr>now_processingTime := 1003\<rparr>, message_of ''c1'' ''first''),
           (no_faults\<lparr>now_processingTime := 1008\<rparr>, message_of ''c2'' ''second''),
           (no_faults\<lparr>now_processingTime := 1001\<rparr>, message_of ''c3'' ''third'')]) fresh_state))
   \<and> averageProcessingTime (stats (process_all (take 2
          [(no_faults\<lparr>now_processingTime := 1003\<rparr>, message_of ''c1'' ''first''),
           (no_faults\<lparr>now_processingTime := 1008\<rparr>, message_of ''c2'' ''second''),
           (no_faults\<lparr>now_processingTime := 1001\<rparr>, message_of ''c3'' ''third'')]) fresh_state))
     \<le> 11 / 2 * (1 + 1 / 2 ^ 53) ^ 6
   \<and> averageProcessingTime (stats (process_all (take (Suc 2)
          [(no_faults\<lparr>now_processingTime := 1003\<rparr>, message_of ''c1'' ''first''),
           (no_faults\<lparr>now_processingTime := 1008\<rparr>, message_of ''c2'' ''second''),
           (no_faults\<lparr>now_processingTime := 1001\<rparr>, message_of ''c3'' ''third'')]) fresh_state))
     = fdiv (fadd (fmul (averageProcessingTime (stats (process_all (take 2
          [(no_faults\<lparr>now_processingTime := 1003\<rparr>, message_of ''c1'' ''first''),
           (no_faults\<lparr>now_processingTime := 1008\<rparr>, message_of ''c2'' ''second''),
           (no_faults\<lparr>now_processingTime := 1001\<rparr>, message_of ''c3'' ''third'')]) fresh_state)))
          2) 1) 3"
proof -
  have mean: "arithmetic_mean (processing_times (take 2
      [(no_faults\<lparr>now_processingTime := 1003\<rparr>, message_of ''c1'' ''first''),
       (no_faults\<lparr>now_processingTime := 1008\<rparr>, message_of ''c2'' ''second''),
       (no_faults\<lparr>now_processingTime := 1001\<rparr>, message_of ''c3'' ''third'')])) = 11 / 2"
    by (simp add: arithmetic_mean_def processing_times_def no_faults_def)
  show ?thesis
    using C6_running_average [of fresh_state
        "[(no_faults\<lparr>now_processingTime := 1003\<rparr>, message_of ''c1'' ''first''),
          (no_faults\<lparr>now_processingTime := 1008\<rparr>, message_of ''c2'' ''second''),
          (no_faults\<lparr>now_processingTime := 1001\<rparr>, message_of ''c3'' ''third'')]" 2]
    unfolding mean
    by (simp add: fresh_state_def no_faults_def message_of_def)
qed

text \<open>
  C6, as it is stated (the average equals the arithmetic mean), fails in double arithmetic.
  Eight messages are processed from the constructor's counters with the processing times
  4, 40, 2, 33, 3, 12, 22 and 4, whose mean is 15: the average that the updates leave is the
  double next above 15.
\<close>

theorem C6_mean_counterexample:
  "averageProcessingTime (stats (process_all eight_messages fresh_state))
     = 8444249301319681 / 562949953421312
   \<and> arithmetic_mean (processing_times eight_messages) = 15
   \<and> totalProcessed (stats (process_all eight_messages fresh_state)) = 8
   \<and> averageProcessingTime (stats (process_all eight_messages fresh_state))
       \<noteq> arithmetic_mean (processing_times eight_messages)"
proof -
  have ok: "\<forall>em \<in> set eight_messages.
              msg_text (snd em) \<noteq> None \<and> update_set_fault (fst em) = None"
    by (simp add: eight_messages_def message_of_def no_faults_def)
  have "(totalProcessed (stats (process_all eight_messages fresh_state)),
         averageProcessingTime (stats (process_all eight_messages fresh_state)))
        = (8, 8444249301319681 / 562949953421312)"
    unfolding average_process_all [OF ok]
    by (simp add: eight_messages_def fresh_state_def initial_stats_def no_faults_def
          average_1_product average_1_sum average_1 average_2_product average_2_sum average_2
          average_3_product average_3_sum average_3 average_4_product average_4_sum average_4
          average_5_product average_5_sum average_5 average_6_product average_6_sum average_6
          average_7_product average_7_sum average_7 average_8_product average_8_sum average_8)
  then have "totalProcessed (stats (process_all eight_messages fresh_state)) = 8"
    and "averageProcessingTime (stats (process_all eight_messages fresh_state))
           = 8444249301319681 / 562949953421312"
    by simp_all
  moreover have "arithmetic_mean (processing_times eight_messages) = 15"
    by (simp add: arithmetic_mean_def processing_times_def eight_messages_def no_faults_def)
  ultimately show ?thesis
    by simp
qed

text \<open>
  C7. Appending occurrences of a word of the toxic-word list to a text (each after any
  separator) never lowers the toxicity score: \<^const>\<open>analyzeContent\<close> returns a result for
  both texts, and the score of the longer text is at least the score of the text, up to and
  at the cap of 1.
\<close>

theorem C7_monotonic_toxicity:
  assumes "w \<in> set toxicWords"
  shows "\<exists>a b. analyzeContent (Some t) hint = Inr a
             \<and> analyzeContent (Some (t @ concat (replicate k (sep @ w)))) hint = Inr b
             \<and> toxicityScore a \<le> toxicityScore b"
proof -
  have "toxicityScore (analyzeContent_try t hint)
          \<le> toxicityScore (analyzeContent_try (t @ concat (replicate k (sep @ w))) hint)"
    unfolding analyzeContent_scores keyword_score_count toLowerCase_append
    by (rule toxic_score_mono [OF matches_mono toxic_matches_le])
  then show ?thesis
    by (simp add: analyzeContent_string)
qed

theorem C7_monotonic_toxicity_witness:
  "\<exists>a b. analyzeContent (Some ''you are awful'') None = Inr a
       \<and> analyzeContent (Some (''you are awful'' @ concat (replicate 2 ('' '' @ ''stupid'')))) None
           = Inr b
       \<and> toxicityScore a \<le> toxicityScore b"
  using C7_monotonic_toxicity [of "''stupid''" "''you are awful''" None 2 "'' ''"]
  by (simp add: toxicWords_def)

text \<open>
  C8, as the code has it. The tokens are the maximal runs of alphanumeric characters of the
  lowercased text that are longer than 3, and at most 5 keywords are returned. For a text
  without the token \<open>constructor\<close>, \<^const>\<open>extractKeywords\<close> returns the first 5 entries
  (all of them when there are fewer) of the ranking of the distinct tokens: the tokens in
  descending order of frequency, the tokens of equal frequency in the order in which the
  counting object enumerates its keys, which is the tokens that are canonical array indices
  (decimal numerals such as \<open>2024\<close>) first, in ascending numeric order, then the other tokens
  as first seen in the text. So the keywords are distinct tokens in this order, and every
  keyword stands in this order before every token that is left out.
\<close>

theorem C8_extractKeywords:
  "keyword_tokens text = filter (\<lambda>w. length w > 3) (alnum_runs [] (toLowerCase text))
   \<and> (\<forall>ks. extractKeywords text = Some ks \<longrightarrow> length ks \<le> 5)
   \<and> (''constructor'' \<notin> set (keyword_tokens text) \<longrightarrow>
        (\<exists>ks. extractKeywords text = Some ks
           \<and> ks = take 5 (ranking (keyword_tokens text))
           \<and> length ks = min 5 (card (set (keyword_tokens text)))
           \<and> distinct ks
           \<and> set ks \<subseteq> set (keyword_tokens text)
           \<and> sorted_wrt
               (\<lambda>a b. count_list (keyword_tokens text) b < count_list (keyword_tokens text) a
                     \<or> (count_list (keyword_tokens text) a = count_list (keyword_tokens text) b
                        \<and> enumerated_before (keyword_tokens text) a b))
               ks
           \<and> (\<forall>k \<in> set ks. \<forall>w \<in> set (keyword_tokens text) - set ks.
                 count_list (keyword_tokens text) w < count_list (keyword_tokens text) k
               \<or> (count_list (keyword_tokens text) k = count_list (keyword_tokens text) w
                  \<and> enumerated_before (keyword_tokens text) k w))))"
proof (intro conjI impI allI)
  show "keyword_tokens text = filter (\<lambda>w. length w > 3) (alnum_runs [] (toLowerCase text))"
    by (rule keyword_tokens_runs)
next
  fix ks
  assume "extractKeywords text = Some ks"
  then show "length ks \<le> 5"
    by (auto simp add: extractKeywords_def Let_def split: if_splits)
next
  assume no: "''constructor'' \<notin> set (keyword_tokens text)"
  let ?ws = "keyword_tokens text"
  let ?Q = "\<lambda>a b. count_list ?ws b < count_list ?ws a
                 \<or> (count_list ?ws a = count_list ?ws b \<and> enumerated_before ?ws a b)"
  let ?S = "ranking ?ws"
  have res: "extractKeywords text = Some (take 5 ?S)"
    by (rule extractKeywords_ranking [OF no])
  have sorted_S: "sorted_wrt ?Q ?S"
    by (rule ranking_sorted)
  have split: "sorted_wrt ?Q (take 5 ?S @ drop 5 ?S)"
    using sorted_S by simp
  have top: "sorted_wrt ?Q (take 5 ?S)"
    using sorted_S by (rule sorted_wrt_take)
  have cross: "\<forall>k \<in> set (take 5 ?S). \<forall>w \<in> set (drop 5 ?S). ?Q k w"
    using split unfolding sorted_wrt_append by blast
  have rest: "w \<in> set (drop 5 ?S)" if "w \<in> set ?ws - set (take 5 ?S)" for w
  proof -
    have "set ?S = set (take 5 ?S) \<union> set (drop 5 ?S)"
      by (metis append_take_drop_id set_append)
    moreover have "w \<in> set ?S" using that by simp
    ultimately show ?thesis using that by blast
  qed
  have c1: "length (take 5 ?S) = min 5 (card (set ?ws))"
    by (simp add: length_ranking min.commute)
  have c2: "distinct (take 5 ?S)"
    by simp
  have c3: "set (take 5 ?S) \<subseteq> set ?ws"
    using set_take_subset [of 5 ?S] by simp
  have c5: "\<forall>k \<in> set (take 5 ?S). \<forall>w \<in> set ?ws - set (take 5 ?S). ?Q k w"
    using cross rest by blast
  show "\<exists>ks. extractKeywords text = Some ks
           \<and> ks = take 5 (ranking ?ws)
           \<and> length ks = min 5 (card (set ?ws))
           \<and> distinct ks
           \<and> set ks \<subseteq> set ?ws
           \<and> sorted_wrt ?Q ks
           \<and> (\<forall>k \<in> set ks. \<forall>w \<in> set ?ws - set ks. ?Q k w)"
    using res c1 c2 c3 top c5 by blast
qed

theorem C8_extractKeywords_witness:
  "extractKeywords ''alpha 2024 beta1 gamma delta epsilon alpha''
     = Some [''alpha'', ''2024'', ''beta1'', ''gamma'', ''delta'']
   \<and> take 5 (ranking (keyword_tokens ''alpha 2024 beta1 gamma delta epsilon alpha''))
     = [''alpha'', ''2024'', ''beta1'', ''gamma'', ''delta'']
   \<and> enumerated_before (keyword_tokens ''alpha 2024 beta1 gamma delta epsilon alpha'')
       ''delta'' ''epsilon''"
proof -
  let ?text = "''alpha 2024 beta1 gamma delta epsilon alpha''"
  have toks: "keyword_tokens ?text
                = [''alpha'', ''2024'', ''beta1'', ''gamma'', ''delta'', ''epsilon'', ''alpha'']"
    by code_simp
  have no: "''constructor'' \<notin> set (keyword_tokens ?text)"
    unfolding toks by simp
  have res: "extractKeywords ?text = Some [''alpha'', ''2024'', ''beta1'', ''gamma'', ''delta'']"
    by code_simp
  from no C8_extractKeywords [of ?text]
  obtain ks where ks: "extractKeywords ?text = Some ks"
    and rank: "ks = take 5 (ranking (keyword_tokens ?text))"
    and cross: "\<forall>k \<in> set ks. \<forall>w \<in> set (keyword_tokens ?text) - set ks.
                 count_list (keyword_tokens ?text) w < count_list (keyword_tokens ?text) k
               \<or> (count_list (keyword_tokens ?text) k = count_list (keyword_tokens ?text) w
                  \<and> enumerated_before (keyword_tokens ?text) k w)"
    by blast
  have eq: "ks = [''alpha'', ''2024'', ''beta1'', ''gamma'', ''delta'']"
    using ks res by simp
  have "''delta'' \<in> set ks"
    and "''epsilon'' \<in> set (keyword_tokens ?text) - set ks"
    unfolding eq toks by simp_all
  with cross have "count_list (keyword_tokens ?text) ''epsilon''
                     < count_list (keyword_tokens ?text) ''delta''
                 \<or> (count_list (keyword_tokens ?text) ''delta''
                      = count_list (keyword_tokens ?text) ''epsilon''
                    \<and> enumerated_before (keyword_tokens ?text) ''delta'' ''epsilon'')"
    by blast
  moreover have "\<not> count_list (keyword_tokens ?text) ''epsilon''
                     < count_list (keyword_tokens ?text) ''delta''"
    unfolding toks by simp
  ultimately have "enumerated_before (keyword_tokens ?text) ''delta'' ''epsilon''"
    by blast
  then show ?thesis
    using res rank eq by simp
qed

text \<open>
  C8, as it is stated (ties broken by first-seen order), fails on the text \<open>test 1234\<close>: both
  tokens occur once, \<open>test\<close> is seen first, and the result lists \<open>1234\<close> first.
\<close>

theorem C8_first_seen_counterexample:
  "keyword_tokens ''test 1234'' = [''test'', ''1234'']
   \<and> extractKeywords ''test 1234'' = Some [''1234'', ''test'']
   \<and> first_seen (keyword_tokens ''test 1234'') ''test''
       < first_seen (keyword_tokens ''test 1234'') ''1234''
   \<and> count_list (keyword_tokens ''test 1234'') ''test''
       = count_list (keyword_tokens ''test 1234'') ''1234''"
  by code_simp



text \<open>
  C10. The counters keep \<open>totalProcessed = totalFlagged + totalApproved\<close>: the equation
  holds after any sequence of messages processed from the constructor's counters, and every
  step preserves it. A step that processes its message adds one to \<open>totalProcessed\<close> and one
  to exactly one of \<open>totalFlagged\<close> (toxic verdict) and \<open>totalApproved\<close>. A step that fails
  (the analysis rejects, or the terminal write is rejected: the exceptions that can reach the
  \<^verbatim>\<open>catch\<close> block) leaves the three counters as they were.
\<close>

theorem C10_counters_invariant:
  assumes "processContent e m s = (r, s')"
  shows "(stats s0 = initial_stats \<longrightarrow>
            totalProcessed (stats (process_all ems s0))
              = totalFlagged (stats (process_all ems s0))
                + totalApproved (stats (process_all ems s0)))
       \<and> (totalProcessed (stats s) = totalFlagged (stats s) + totalApproved (stats s) \<longrightarrow>
            totalProcessed (stats s') = totalFlagged (stats s') + totalApproved (stats s'))
       \<and> (r = Processed \<longrightarrow>
            totalProcessed (stats s') = totalProcessed (stats s) + 1
          \<and> (\<exists>a. analyzeContent (msg_text m) (msg_category m) = Inr a
                \<and> (if isToxic a
                    then totalFlagged (stats s') = totalFlagged (stats s) + 1
                       \<and> totalApproved (stats s') = totalApproved (stats s)
                    else totalFlagged (stats s') = totalFlagged (stats s)
                       \<and> totalApproved (stats s') = totalApproved (stats s) + 1)))
       \<and> (r \<noteq> Processed \<longrightarrow>
            totalProcessed (stats s') = totalProcessed (stats s)
          \<and> totalFlagged (stats s') = totalFlagged (stats s)
          \<and> totalApproved (stats s') = totalApproved (stats s))"
proof -
  have r: "r = fst (processContent e m s)" and s': "s' = snd (processContent e m s)"
    using assms by simp_all
  have all: "stats s0 = initial_stats \<longrightarrow>
      totalProcessed (stats (process_all ems s0))
        = totalFlagged (stats (process_all ems s0)) + totalApproved (stats (process_all ems s0))"
    by (simp add: counters_process_all initial_stats_def)
  have inv: "totalProcessed (stats s) = totalFlagged (stats s) + totalApproved (stats s) \<longrightarrow>
      totalProcessed (stats s') = totalFlagged (stats s') + totalApproved (stats s')"
    unfolding s' using counters_processContent by blast
  show ?thesis
  proof (cases "r = Processed")
    case True
    then obtain t where t: "msg_text m = Some t" and ok: "update_set_fault e = None"
      unfolding r by (auto simp add: outcome_processContent)
    have a: "analyzeContent (msg_text m) (msg_category m)
               = Inr (analyzeContent_try t (msg_category m))"
      by (simp add: t analyzeContent_string)
    have "totalProcessed (stats s') = totalProcessed (stats s) + 1
          \<and> (if isToxic (analyzeContent_try t (msg_category m))
              then totalFlagged (stats s') = totalFlagged (stats s) + 1
                 \<and> totalApproved (stats s') = totalApproved (stats s)
              else totalFlagged (stats s') = totalFlagged (stats s)
                 \<and> totalApproved (stats s') = totalApproved (stats s) + 1)"
      by (simp add: s' stats_processContent_ok [OF t ok] count_processed_def count_verdict_def
            Let_def)
    then show ?thesis
      using True all inv a by simp
  next
    case False
    then have "stats s' = stats s"
      unfolding r s' by (rule stats_processContent_not_processed)
    then show ?thesis
      using False all by simp
  qed
qed

theorem C10_counters_invariant_witness:
  "totalProcessed (stats (snd (processContent no_faults (message_of ''c1'' ''hello'') fresh_state)))
     = totalProcessed (stats fresh_state) + 1
   \<and> totalProcessed (stats (snd (processContent no_faults (message_of ''c1'' ''hello'') fresh_state)))
     = totalFlagged (stats (snd (processContent no_faults (message_of ''c1'' ''hello'') fresh_state)))
       + totalApproved (stats (snd (processContent no_faults (message_of ''c1'' ''hello'') fresh_state)))
   \<and> totalProcessed (stats (snd (processContent (no_faults\<lparr>update_set_fault := Some ''down''\<rparr>)
        (message_of ''c1'' ''hello'') fresh_state))) = totalProcessed (stats fresh_state)
   \<and> totalProcessed (stats (process_all [(no_faults, message_of ''c1'' ''hello'')] fresh_state))
     = totalFlagged (stats (process_all [(no_faults, message_of ''c1'' ''hello'')] fresh_state))
       + totalApproved (stats (process_all [(no_faults, message_of ''c1'' ''hello'')] fresh_state))"
proof -
  let ?p = "processContent no_faults (message_of ''c1'' ''hello'') fresh_state"
  let ?q = "processContent (no_faults\<lparr>update_set_fault := Some ''down''\<rparr>)
              (message_of ''c1'' ''hello'') fresh_state"
  have p: "?p = (fst ?p, snd ?p)" and q: "?q = (fst ?q, snd ?q)"
    by simp_all
  have ok: "fst ?p = Processed"
    by (simp add: outcome_processContent no_faults_def message_of_def)
  have ko: "fst ?q \<noteq> Processed"
    by (simp add: outcome_processContent no_faults_def)
  have init: "stats fresh_state = initial_stats"
    by (simp add: fresh_state_def)
  have inv: "totalProcessed (stats fresh_state)
               = totalFlagged (stats fresh_state) + totalApproved (stats fresh_state)"
    by (simp add: fresh_state_def initial_stats_def)
  from C10_counters_invariant [OF p] ok
  have "totalProcessed (stats (snd ?p)) = totalProcessed (stats fresh_state) + 1"
    by blast
  moreover from C10_counters_invariant [OF p] inv
  have "totalProcessed (stats (snd ?p))
          = totalFlagged (stats (snd ?p)) + totalApproved (stats (snd ?p))"
    by blast
  moreover from C10_counters_invariant [OF q] ko
  have "totalProcessed (stats (snd ?q)) = totalProcessed (stats fresh_state)"
    by blast
  moreover from C10_counters_invariant [OF p, of fresh_state] init
  have "totalProcessed (stats (process_all [(no_faults, message_of ''c1'' ''hello'')] fresh_state))
     = totalFlagged (stats (process_all [(no_faults, message_of ''c1'' ''hello'')] fresh_state))
       + totalApproved (stats (process_all [(no_faults, message_of ''c1'' ''hello'')] fresh_state))"
    by blast
  ultimately show ?thesis by blast
qed

end
